theory Spec2Isabelle
  imports Main "HOL-Library.AList" "HOL-Library.Sublist"
begin

section \<open>Data model\<close>

text \<open>
  A Python \<open>dict\<close> with string keys is an association list in insertion order:
  \<open>d[k]\<close> is \<open>map_of d k\<close> (a missing key raises \<open>KeyError\<close>, see \<open>lookup\<close> below),
  \<open>d[k] = v\<close> is \<open>AList.update k v d\<close> (an existing key keeps its place, a new one goes
  to the end) and \<open>del d[k]\<close> is \<open>AList.delete k d\<close>.  A Python \<open>set\<close> of keys is a
  list without repetitions, which stands for its elements only: Python does not fix the
  order in which a set is iterated, and each loop over a set takes its order from outside
  (\<open>set_order\<close> below).
\<close>

type_synonym fingerprints = "(string \<times> string) list"

text \<open>\<open>config.py\<close>: class \<open>Target\<close> with its two properties, and class \<open>Config\<close>.\<close>

record target =
  controller_path :: string
  web_path :: string
  colors_path :: string
  controller_api_url :: string

definition controller_host :: "target \<Rightarrow> string option" where
  "controller_host t =
     (if CHR '':'' \<notin> set (controller_path t) then None
      else Some (takeWhile (\<lambda>c. c \<noteq> CHR '':'') (controller_path t)))"

definition controller_fs_path :: "target \<Rightarrow> string" where
  "controller_fs_path t =
     (if CHR '':'' \<notin> set (controller_path t) then controller_path t
      else takeWhile (\<lambda>c. c \<noteq> CHR '':'')
             (tl (dropWhile (\<lambda>c. c \<noteq> CHR '':'') (controller_path t))))"

record config =
  targets :: "string \<rightharpoonup> target"

text \<open>\<open>data.py\<close>: class \<open>Target\<close> (here \<open>data_target\<close>) and class \<open>BuildData\<close>.\<close>

record data_target =
  hashes :: fingerprints

record build_data =
  targets :: "(string \<times> data_target) list"

text \<open>
  \<open>json.dump\<close> and \<open>json.load\<close> belong to the Python library and are taken as inverse
  to each other, so a file that holds a complete JSON document is modelled by the document
  itself.  Only objects and strings occur in what \<open>save_build_data\<close> writes.  The file
  at \<open>DATA_PATH\<close> can also be \<open>Partial\<close>: empty, as \<open>DATA_PATH.touch()\<close> and
  \<open>open(DATA_PATH, "w")\<close> leave it, or holding the beginning of a document only, as a
  \<open>json.dump\<close> that raises leaves it.  \<open>json.load\<close> raises on such a file.
\<close>

datatype json = JString string | JObject "(string \<times> json) list"

datatype file_content = Document json | Partial

datatype call =
    Get string
  | Reload string
  | Create_status string string string string string
  | Run "string list"
  | Write_data json

datatype reply = Done nat | Fault

datatype error =
    HTTPException nat string
  | RuntimeError string
  | KeyError string
  | ValidationError
  | JSONDecodeError
  | ManifestError
  | CallError call

text \<open>
  The calls that leave the process: \<open>Get url\<close> is \<open>github_get_request(url)\<close>,
  \<open>Reload u\<close> is the request of \<open>reload_controller\<close> to \<open>urljoin(u, "reload")\<close>,
  \<open>Create_status repository sha state context description\<close> is the \<open>create_status\<close> of
  \<open>set_commit_status\<close>, \<open>Run argv\<close> is \<open>subprocess.run(argv)\<close> and \<open>Write_data j\<close> is
  the write of \<open>save_build_data\<close> to \<open>DATA_PATH\<close>.

  A reply \<open>Done n\<close> says that the call completed, with \<open>n\<close> the exit status of the
  process or the HTTP status of the response; \<open>Fault\<close> says that the call itself
  raised (the program could not be started, no connection, the file could not be opened
  or written).  \<open>subprocess.run\<close> is called without \<open>check=True\<close> everywhere, so an
  exit status never raises; the two \<open>requests.get\<close> are followed by
  \<open>raise_for_status()\<close>, which raises for a status from 400 to 599; PyGithub raises
  for a status of 400 or more.
\<close>

fun raises :: "call \<Rightarrow> reply \<Rightarrow> bool" where
  "raises c Fault = True"
| "raises (Run argv) (Done n) = False"
| "raises (Write_data j) (Done n) = False"
| "raises (Get url) (Done n) = (400 \<le> n \<and> n < 600)"
| "raises (Reload u) (Done n) = (400 \<le> n \<and> n < 600)"
| "raises (Create_status r c st cx d) (Done n) = (400 \<le> n)"

text \<open>
  How far a write to \<open>DATA_PATH\<close> that raises had got: the file had not been created
  or opened yet; it had been created or emptied, and at most the beginning of the document
  had reached it; the whole document had reached it (and closing the file raised).
\<close>

datatype damage = Untouched | Cut_short | Written

text \<open>The four loops of the handler that iterate over a set (lines 212, 214, 232, 261).\<close>

datatype loop = New_hashes | Overlapping_hashes | Deleted_hashes | Synced_hashes

text \<open>
  What a run reads from outside.  \<open>reply w n\<close> is the reply to the call issued when
  \<open>n\<close> calls have been issued before it.  \<open>write_damage w n\<close> says, for a write to
  \<open>DATA_PATH\<close> issued at that point that raises, how far the write had got.  \<open>artifacts\<close> is the artifacts listing (name and
  \<open>archive_download_url\<close> of each entry), \<open>manifest\<close> the content of \<open>hashes.json\<close>
  in the unpacked archive (\<open>None\<close> when the file is missing or is not JSON),
  \<open>temp_dir\<close> the name of the temporary directory (absolute and without redundant
  separators, as \<open>TemporaryDirectory\<close> returns it).  \<open>ft_production w n\<close> is the value
  of \<open>datetime.now().strftime("%d%H")\<close> read when \<open>n\<close> calls have been issued: the
  clock is read again for every command.  \<open>iteration w l\<close> lists keys in the order in
  which the set of loop \<open>l\<close> yields them.  \<open>elapsed\<close> is the value of
  \<open>int(round(time.time() - start_time))\<close> at the end, and \<open>access_token\<close> is
  \<open>GITHUB_ACCESS_TOKEN\<close>.
\<close>

record world =
  reply :: "nat \<Rightarrow> reply"
  write_damage :: "nat \<Rightarrow> damage"
  artifacts :: "(string \<times> string) list"
  manifest :: "fingerprints option"
  temp_dir :: string
  ft_production :: "nat \<Rightarrow> string"
  iteration :: "loop \<Rightarrow> string list"
  elapsed :: int
  access_token :: string

text \<open>The fields of the webhook payload that \<open>handle_workflow_run_completed\<close> reads.\<close>

record workflow_run =
  status :: string
  event :: string
  head_branch :: string
  head_sha :: string
  name :: string
  artifacts_url :: string

record repository =
  full_name :: string

record payload =
  workflow_run :: workflow_run
  repository :: repository

text \<open>
  The state of the process: the global \<open>data\<close> of \<open>server.py\<close>, the file at
  \<open>DATA_PATH\<close> (\<open>None\<close> when it does not exist) and the calls issued so far.
\<close>

record state =
  data :: build_data
  disk :: "file_content option"
  log :: "call list"

section \<open>Statements that may raise\<close>

type_synonym 'a prog = "state \<Rightarrow> (error + 'a) \<times> state"

definition ret :: "'a \<Rightarrow> 'a prog" where
  "ret x = (\<lambda>s. (Inr x, s))"

definition raise :: "error \<Rightarrow> 'a prog" where
  "raise e = (\<lambda>s. (Inl e, s))"

definition bind :: "'a prog \<Rightarrow> ('a \<Rightarrow> 'b prog) \<Rightarrow> 'b prog" where
  "bind m f = (\<lambda>s. case m s of (Inl e, s') \<Rightarrow> (Inl e, s') | (Inr x, s') \<Rightarrow> f x s')"

fun block :: "unit prog list \<Rightarrow> unit prog" where
  "block [] = ret ()"
| "block (p # ps) = bind p (\<lambda>_. block ps)"

definition for_each :: "'a list \<Rightarrow> ('a \<Rightarrow> unit prog) \<Rightarrow> unit prog" where
  "for_each xs body = block (map body xs)"

definition perform :: "world \<Rightarrow> call \<Rightarrow> unit prog" where
  "perform w c = (\<lambda>s.
     (if raises c (reply w (length (log s))) then Inl (CallError c) else Inr (),
      s\<lparr>log := log s @ [c]\<rparr>))"

definition lookup :: "(string \<times> 'v) list \<Rightarrow> string \<Rightarrow> 'v prog" where
  "lookup d k = (case map_of d k of None \<Rightarrow> raise (KeyError k) | Some v \<Rightarrow> ret v)"

section \<open>\<open>data.py\<close>\<close>

definition target_dict :: "data_target \<Rightarrow> json" where
  "target_dict t = JObject [(''hashes'', JObject (map (\<lambda>(k, v). (k, JString v)) (hashes t)))]"

definition build_data_dict :: "build_data \<Rightarrow> json" where
  "build_data_dict d =
     JObject [(''targets'', JObject (map (\<lambda>(b, t). (b, target_dict t)) (build_data.targets d)))]"

text \<open>
  \<open>parse_obj\<close> of pydantic: a field that is absent takes its default \<open>{}\<close>, other
  keys are ignored, and a value of the wrong shape is a validation error.
\<close>

fun parse_str :: "json \<Rightarrow> error + string" where
  "parse_str (JString v) = Inr v"
| "parse_str (JObject kvs) = Inl ValidationError"

fun parse_items :: "('a \<Rightarrow> error + 'b) \<Rightarrow> (string \<times> 'a) list \<Rightarrow> error + (string \<times> 'b) list" where
  "parse_items f [] = Inr []"
| "parse_items f ((k, j) # kvs) =
     (case f j of Inl e \<Rightarrow> Inl e
      | Inr v \<Rightarrow> (case parse_items f kvs of Inl e \<Rightarrow> Inl e | Inr vs \<Rightarrow> Inr ((k, v) # vs)))"

fun parse_field :: "string \<Rightarrow> (json \<Rightarrow> error + 'b) \<Rightarrow> json \<Rightarrow> error + (string \<times> 'b) list" where
  "parse_field field f (JString v) = Inl ValidationError"
| "parse_field field f (JObject kvs) =
     (case map_of kvs field of
        None \<Rightarrow> Inr []
      | Some (JString v) \<Rightarrow> Inl ValidationError
      | Some (JObject items) \<Rightarrow> parse_items f items)"

definition parse_target :: "json \<Rightarrow> error + data_target" where
  "parse_target j =
     (case parse_field ''hashes'' parse_str j of
        Inl e \<Rightarrow> Inl e | Inr h \<Rightarrow> Inr \<lparr>hashes = h\<rparr>)"

definition parse_obj :: "json \<Rightarrow> error + build_data" where
  "parse_obj j =
     (case parse_field ''targets'' parse_target j of
        Inl e \<Rightarrow> Inl e | Inr ts \<Rightarrow> Inr \<lparr>build_data.targets = ts\<rparr>)"

definition load_build_data :: "file_content option \<Rightarrow> error + build_data" where
  "load_build_data f =
     (case f of
        None \<Rightarrow> Inr \<lparr>build_data.targets = []\<rparr>
      | Some Partial \<Rightarrow> Inl JSONDecodeError
      | Some (Document j) \<Rightarrow> parse_obj j)"

text \<open>
  \<open>save_build_data\<close> creates the file (and its directory) when it does not exist,
  opens it for writing, which empties it, and dumps \<open>build_data.dict()\<close>.  When all of
  this completes the file holds the new document, whatever it held before.  When one of
  the steps raises, the file is as it was if nothing had been created or emptied yet, is
  empty or holds the beginning of the document if the dump was cut short, and holds the
  document if only the closing of the file raised.
\<close>

definition failed_write_leaves :: "world \<Rightarrow> nat \<Rightarrow> json \<Rightarrow> file_content option
    \<Rightarrow> file_content option" where
  "failed_write_leaves w n document before =
     (case write_damage w n of
        Untouched \<Rightarrow> before
      | Cut_short \<Rightarrow> Some Partial
      | Written \<Rightarrow> Some (Document document))"

definition save_build_data :: "world \<Rightarrow> unit prog" where
  "save_build_data w = (\<lambda>s.
     let document = build_data_dict (data s); n = length (log s) in
     if raises (Write_data document) (reply w n)
     then (Inl (CallError (Write_data document)),
           s\<lparr>disk := failed_write_leaves w n document (disk s),
             log := log s @ [Write_data document]\<rparr>)
     else (Inr (),
           s\<lparr>disk := Some (Document document), log := log s @ [Write_data document]\<rparr>))"

section \<open>\<open>server.py\<close>\<close>

definition github_get_request :: "world \<Rightarrow> string \<Rightarrow> (string \<times> string) list prog" where
  "github_get_request w url = bind (perform w (Get url)) (\<lambda>_. ret (artifacts w))"

definition reload_controller :: "world \<Rightarrow> target \<Rightarrow> unit prog" where
  "reload_controller w t = perform w (Reload (controller_api_url t))"

definition set_commit_status :: "world \<Rightarrow> string \<Rightarrow> string \<Rightarrow> string \<Rightarrow> string \<Rightarrow> string \<Rightarrow> unit prog" where
  "set_commit_status w repository_name sha st context description =
     perform w (Create_status repository_name sha st (''footron-ci/'' @ context) description)"

definition subprocess_run :: "world \<Rightarrow> string list \<Rightarrow> unit prog" where
  "subprocess_run w argv = perform w (Run argv)"

text \<open>\<open>datetime.now().strftime("%d%H")\<close>, read at this point of the run.\<close>

definition now_stamp :: "world \<Rightarrow> string prog" where
  "now_stamp w = (\<lambda>s. (Inr (ft_production w (length (log s))), s))"

definition ssh_production_option :: "world \<Rightarrow> string prog" where
  "ssh_production_option w =
     bind (now_stamp w) (\<lambda>stamp. ret (''-o \"SetEnv=FT_PRODUCTION='' @ stamp @ ''\"''))"

definition rsync_ssh_production_command :: "world \<Rightarrow> string prog" where
  "rsync_ssh_production_command w =
     bind (ssh_production_option w) (\<lambda>option. ret (''ssh '' @ option))"

text \<open>
  \<open>shlex.split(ssh_production_option())\<close>: the option and its argument without the
  quotes (the stamp is made of digits).
\<close>

definition split_ssh_production_option :: "world \<Rightarrow> string list prog" where
  "split_ssh_production_option w =
     bind (now_stamp w) (\<lambda>stamp. ret [''-o'', ''SetEnv=FT_PRODUCTION='' @ stamp])"

text \<open>\<open>str(temp_path / name)\<close>, for the plain names the handler joins.\<close>

definition temp_path :: "world \<Rightarrow> string \<Rightarrow> string" where
  "temp_path w file_name = temp_dir w @ ''/'' @ file_name"

text \<open>
  \<open>str(base / key)\<close> of \<open>pathlib\<close> on POSIX for an arbitrary string \<open>key\<close>, where
  \<open>base\<close> is the text of an absolute path.  A key that starts with a slash replaces
  the base; its root is \<open>//\<close> when it starts with exactly two slashes and \<open>/\<close>
  otherwise.  The components of a key are separated by slashes; empty components and
  components \<open>.\<close> are dropped.
\<close>

primrec split_slash :: "string \<Rightarrow> string list" where
  "split_slash [] = [] # []"
| "split_slash (c # cs) =
     (if c = CHR ''/'' then [] # split_slash cs
      else (case split_slash cs of [] \<Rightarrow> [c] # [] | p # ps \<Rightarrow> (c # p) # ps))"

definition path_parts :: "string \<Rightarrow> string list" where
  "path_parts key = [p \<leftarrow> split_slash key. p \<noteq> [] \<and> p \<noteq> ''.'']"

definition path_root :: "string \<Rightarrow> string" where
  "path_root key =
     (if length (takeWhile (\<lambda>c. c = CHR ''/'') key) = 2 then ''//'' else ''/'')"

definition join_path :: "string \<Rightarrow> string \<Rightarrow> string" where
  "join_path base key =
     (if key \<noteq> [] \<and> hd key = CHR ''/''
      then path_root key @
           (case path_parts key of [] \<Rightarrow> [] | p # ps \<Rightarrow> p @ concat (map (\<lambda>q. ''/'' @ q) ps))
      else base @ concat (map (\<lambda>p. ''/'' @ p) (path_parts key)))"

text \<open>The \<open>for ... else\<close> over the artifacts listing: the first entry of that name.\<close>

fun find_artifact :: "string \<Rightarrow> (string \<times> string) list \<Rightarrow> string option" where
  "find_artifact n [] = None"
| "find_artifact n ((artifact_name, archive_download_url) # rest) =
     (if artifact_name = n then Some archive_download_url else find_artifact n rest)"

fun str_nat :: "nat \<Rightarrow> string" where
  "str_nat n =
     (if n < 10 then [''0123456789'' ! n]
      else str_nat (n div 10) @ [''0123456789'' ! (n mod 10)])"

declare str_nat.simps [simp del]

definition str_int :: "int \<Rightarrow> string" where
  "str_int i = (if i < 0 then ''-'' @ str_nat (nat (- i)) else str_nat (nat i))"

subsection \<open>Sets of keys\<close>

definition key_set :: "(string \<times> 'v) list \<Rightarrow> string list" where
  "key_set d = remdups (map fst d)"

definition set_diff :: "string list \<Rightarrow> string list \<Rightarrow> string list" where
  "set_diff xs ys = [x \<leftarrow> xs. x \<notin> set ys]"

definition set_inter :: "string list \<Rightarrow> string list \<Rightarrow> string list" where
  "set_inter xs ys = [x \<leftarrow> xs. x \<in> set ys]"

definition set_union :: "string list \<Rightarrow> string list \<Rightarrow> string list" where
  "set_union xs ys = xs @ [y \<leftarrow> ys. y \<notin> set xs]"

definition set_add :: "string list \<Rightarrow> string \<Rightarrow> string list" where
  "set_add xs x = (if x \<in> set xs then xs else xs @ [x])"

text \<open>
  \<open>for hash_key in xs\<close> for a set \<open>xs\<close>, in loop \<open>l\<close>: the elements of \<open>xs\<close>, each
  once, those that \<open>iteration w l\<close> lists in that order and the others after them.
  Every order of the elements is \<open>set_order w l xs\<close> for some \<open>iteration w l\<close>.
\<close>

definition set_order :: "world \<Rightarrow> loop \<Rightarrow> string list \<Rightarrow> string list" where
  "set_order w l xs =
     [x \<leftarrow> remdups (iteration w l). x \<in> set xs] @ [x \<leftarrow> xs. x \<notin> set (iteration w l)]"

subsection \<open>The global \<open>data\<close>\<close>

text \<open>\<open>if branch not in data.targets: data.targets[branch] = DataTarget()\<close>\<close>

definition ensure_target :: "string \<Rightarrow> unit prog" where
  "ensure_target branch = (\<lambda>s.
     (Inr (),
      if branch \<notin> fst ` set (build_data.targets (data s))
      then s\<lparr>data := (data s)\<lparr>build_data.targets :=
               AList.update branch \<lparr>hashes = []\<rparr> (build_data.targets (data s))\<rparr>\<rparr>
      else s))"

text \<open>\<open>data.targets[branch].hashes\<close>, read and updated in place.\<close>

definition get_hashes :: "string \<Rightarrow> fingerprints prog" where
  "get_hashes branch = (\<lambda>s.
     case map_of (build_data.targets (data s)) branch of
       None \<Rightarrow> (Inl (KeyError branch), s)
     | Some t \<Rightarrow> (Inr (hashes t), s))"

definition modify_hashes :: "string \<Rightarrow> (fingerprints \<Rightarrow> fingerprints) \<Rightarrow> unit prog" where
  "modify_hashes branch f = (\<lambda>s.
     case map_of (build_data.targets (data s)) branch of
       None \<Rightarrow> (Inl (KeyError branch), s)
     | Some t \<Rightarrow>
         (Inr (),
          s\<lparr>data := (data s)\<lparr>build_data.targets :=
               AList.update branch (t\<lparr>hashes := f (hashes t)\<rparr>) (build_data.targets (data s))\<rparr>\<rparr>))"

text \<open>\<open>data.targets[branch].hashes[hash_key] = v\<close>\<close>

definition set_hash :: "string \<Rightarrow> string \<Rightarrow> string \<Rightarrow> unit prog" where
  "set_hash branch hash_key v = modify_hashes branch (AList.update hash_key v)"

text \<open>\<open>del data.targets[branch].hashes[hash_key]\<close>\<close>

definition del_hash :: "string \<Rightarrow> string \<Rightarrow> unit prog" where
  "del_hash branch hash_key =
     bind (get_hashes branch) (\<lambda>h.
       if hash_key \<in> fst ` set h then modify_hashes branch (AList.delete hash_key)
       else raise (KeyError hash_key))"

subsection \<open>Lines 201 to 216: comparing the hashes\<close>

text \<open>
  \<open>existing_hashes\<close> is the dictionary object stored in \<open>data\<close>, not a copy of it:
  the loop over \<open>new_hashes\<close> writes into it, and the loop over \<open>overlapping_hashes\<close>
  reads it after these writes.  The key sets were taken before.
\<close>

fun changed_loop :: "fingerprints \<Rightarrow> fingerprints \<Rightarrow> string list \<Rightarrow> string list
    \<Rightarrow> string list prog" where
  "changed_loop hashes_json existing_hashes [] changed_hashes = ret changed_hashes"
| "changed_loop hashes_json existing_hashes (hash_key # rest) changed_hashes =
     bind (lookup hashes_json hash_key) (\<lambda>new_hash.
     bind (lookup existing_hashes hash_key) (\<lambda>old_hash.
       changed_loop hashes_json existing_hashes rest
         (if new_hash \<noteq> old_hash then set_add changed_hashes hash_key else changed_hashes)))"

definition compare_hashes :: "world \<Rightarrow> string \<Rightarrow> fingerprints
    \<Rightarrow> (string list \<times> string list \<times> string list \<times> string list) prog" where
  "compare_hashes w branch hashes_json =
     bind (ensure_target branch) (\<lambda>_.
     bind (get_hashes branch) (\<lambda>existing_hashes.
       let hashes_keys = key_set hashes_json;
           existing_hashes_keys = key_set existing_hashes;
           new_hashes = set_diff hashes_keys existing_hashes_keys;
           deleted_hashes = set_diff existing_hashes_keys hashes_keys;
           overlapping_hashes = set_inter hashes_keys existing_hashes_keys
       in
     bind (for_each (set_order w New_hashes new_hashes) (\<lambda>hash_key.
             bind (lookup hashes_json hash_key) (set_hash branch hash_key))) (\<lambda>_.
     bind (get_hashes branch) (\<lambda>existing_hashes.
     bind (changed_loop hashes_json existing_hashes
             (set_order w Overlapping_hashes overlapping_hashes) []) (\<lambda>changed_hashes.
       ret (new_hashes, deleted_hashes, overlapping_hashes, changed_hashes))))))"

subsection \<open>The two pipelines\<close>

definition controls_pipeline :: "world \<Rightarrow> target \<Rightarrow> payload \<Rightarrow> unit prog" where
  "controls_pipeline w target ev =
     (let sha = head_sha (workflow_run ev);
          event_name = name (workflow_run ev);
          repository_name = full_name (repository ev);
          web_build_zip_path = temp_path w ''web-build.zip''
      in
      bind (github_get_request w (artifacts_url (workflow_run ev))) (\<lambda>listing.
        case find_artifact ''web-build'' listing of
          None \<Rightarrow> raise (RuntimeError ''Missing web build'')
        | Some experiences_build_url \<Rightarrow>
            block [
              set_commit_status w repository_name sha ''pending'' event_name
                ''Downloading artifacts'',
              subprocess_run w
                [''curl'', ''-H'', ''Authorization: token '' @ access_token w, ''-L'',
                 experiences_build_url, ''-o'', web_build_zip_path],
              set_commit_status w repository_name sha ''pending'' event_name
                ''Extracting artifacts'',
              subprocess_run w [''unzip'', web_build_zip_path, ''-d'', temp_path w ''build''],
              set_commit_status w repository_name sha ''pending'' event_name
                ''Copying web build'',
              bind (rsync_ssh_production_command w) (\<lambda>command.
                subprocess_run w
                  [''rsync'', ''-e'', command, ''-a'', ''--delete'',
                   temp_path w ''build'' @ ''/'', web_path target]),
              set_commit_status w repository_name sha ''pending'' event_name
                ''Reloading controller'',
              reload_controller w target]))"

text \<open>
  The body of the loop over \<open>deleted_hashes\<close>, lines 233 to 252.
  \<open>if controller_host:\<close> is false for \<open>None\<close> and for the empty string; the removal
  then runs on the local host.
\<close>

definition delete_experience :: "world \<Rightarrow> target \<Rightarrow> string \<Rightarrow> string \<Rightarrow> unit prog" where
  "delete_experience w target branch hash_key =
     block [
       del_hash branch hash_key,
       (case controller_host target of
          None \<Rightarrow>
            subprocess_run w
              [''rm'', ''-rf'', controller_fs_path target @ ''/experiences/'' @ hash_key]
        | Some host \<Rightarrow>
            if host \<noteq> [] then
              bind (split_ssh_production_option w) (\<lambda>option.
                subprocess_run w
                  ([''ssh''] @ option @
                   [host, ''rm -rf '' @ controller_fs_path target @ ''/experiences/'' @ hash_key]))
            else
              subprocess_run w
                [''rm'', ''-rf'', controller_fs_path target @ ''/experiences/'' @ hash_key])]"

text \<open>The body of the loop over \<open>changed_hashes | new_hashes\<close>, lines 263 to 276.\<close>

definition sync_experience :: "world \<Rightarrow> target \<Rightarrow> string \<Rightarrow> unit prog" where
  "sync_experience w target hash_key =
     bind (rsync_ssh_production_command w) (\<lambda>command.
       subprocess_run w
         [''rsync'', ''-avP'', ''--delete'', ''-e'', command,
          ''--exclude=*.mp4'', ''--exclude=*.webm'',
          join_path (temp_path w ''experiences'') hash_key @ ''/'',
          controller_path target @ ''/experiences/'' @ hash_key])"

definition read_hashes_file :: "world \<Rightarrow> fingerprints prog" where
  "read_hashes_file w = (case manifest w of None \<Rightarrow> raise ManifestError | Some h \<Rightarrow> ret h)"

definition experiences_pipeline :: "world \<Rightarrow> target \<Rightarrow> payload \<Rightarrow> unit prog" where
  "experiences_pipeline w target ev =
     (let branch = head_branch (workflow_run ev);
          sha = head_sha (workflow_run ev);
          event_name = name (workflow_run ev);
          repository_name = full_name (repository ev);
          web_build_zip_path = temp_path w ''experiences.zip''
      in
      bind (github_get_request w (artifacts_url (workflow_run ev))) (\<lambda>listing.
        case find_artifact ''experiences'' listing of
          None \<Rightarrow> raise (RuntimeError ''Missing experiences build'')
        | Some experiences_build_url \<Rightarrow>
      bind (block [
              set_commit_status w repository_name sha ''pending'' event_name
                ''Downloading artifacts'',
              subprocess_run w
                [''curl'', ''-H'', ''Authorization: token '' @ access_token w, ''-L'',
                 experiences_build_url, ''-o'', web_build_zip_path],
              set_commit_status w repository_name sha ''pending'' event_name
                ''Extracting artifacts'',
              subprocess_run w [''unzip'', web_build_zip_path, ''-d'', temp_dir w],
              set_commit_status w repository_name sha ''pending'' event_name
                ''Comparing hashes'']) (\<lambda>_.
      bind (read_hashes_file w) (\<lambda>hashes_json.
      bind (compare_hashes w branch hashes_json)
        (\<lambda>(new_hashes, deleted_hashes, overlapping_hashes, changed_hashes).
            block [
              set_commit_status w repository_name sha ''pending'' event_name
                ''Deleting deleted experiences'',
              for_each (set_order w Deleted_hashes deleted_hashes)
                (delete_experience w target branch),
              set_commit_status w repository_name sha ''pending'' event_name
                ''Syncing experiences'',
              for_each (set_order w Synced_hashes (set_union changed_hashes new_hashes))
                (sync_experience w target),
              modify_hashes branch (\<lambda>_. hashes_json),
              save_build_data w,
              set_commit_status w repository_name sha ''pending'' event_name
                ''Syncing editorial configs'',
              bind (rsync_ssh_production_command w) (\<lambda>command.
                subprocess_run w
                  ([''rsync'', ''-avP'', ''--delete'', ''-e'', command] @
                   map (\<lambda>file_name. temp_dir w @ ''/'' @ file_name @ ''.toml'')
                     [''folders'', ''tags'', ''collections''] @
                   [controller_path target])),
              set_commit_status w repository_name sha ''pending'' event_name
                ''Reloading controller'',
              reload_controller w target])))))"

definition handle_workflow_run_completed :: "config \<Rightarrow> world \<Rightarrow> payload \<Rightarrow> unit prog" where
  "handle_workflow_run_completed cfg w ev =
     (if status (workflow_run ev) \<noteq> ''completed'' \<or> event (workflow_run ev) \<noteq> ''push''
      then ret ()
      else
        case config.targets cfg (head_branch (workflow_run ev)) of
          None \<Rightarrow> ret ()
        | Some target \<Rightarrow>
            let event_name = name (workflow_run ev) in
            if event_name \<notin> set [''build-controls'', ''build-experiences'']
            then raise (HTTPException 400 ''Unknown event name'')
            else
              bind (if event_name = ''build-controls'' then controls_pipeline w target ev
                    else if event_name = ''build-experiences''
                    then experiences_pipeline w target ev
                    else ret ()) (\<lambda>_.
              set_commit_status w (full_name (repository ev)) (head_sha (workflow_run ev))
                ''success'' event_name (''Successful in '' @ str_int (elapsed w) @ ''s'')))"

text \<open>A run of the handler starts with nothing issued yet.\<close>

definition start :: "build_data \<Rightarrow> file_content option \<Rightarrow> state" where
  "start d f = \<lparr>data = d, disk = f, log = []\<rparr>"

section \<open>The sequence of calls of a run\<close>

text \<open>Issuing a list of calls in order, up to the first one that raises.\<close>

fun issue :: "world \<Rightarrow> call list \<Rightarrow> unit prog" where
  "issue w [] = ret ()"
| "issue w (c # cs) = bind (perform w c) (\<lambda>_. issue w cs)"

definition report :: "payload \<Rightarrow> string \<Rightarrow> string \<Rightarrow> call" where
  "report ev st description =
     Create_status (full_name (repository ev)) (head_sha (workflow_run ev)) st
       (''footron-ci/'' @ name (workflow_run ev)) description"

fun is_report :: "string \<Rightarrow> call \<Rightarrow> bool" where
  "is_report st (Create_status r c st' cx d) = (st' = st)"
| "is_report st (Get url) = False"
| "is_report st (Reload u) = False"
| "is_report st (Run argv) = False"
| "is_report st (Write_data j) = False"

fun is_write :: "call \<Rightarrow> bool" where
  "is_write (Write_data j) = True"
| "is_write (Create_status r c st cx d) = False"
| "is_write (Get url) = False"
| "is_write (Reload u) = False"
| "is_write (Run argv) = False"

fun is_run :: "call \<Rightarrow> bool" where
  "is_run (Run argv) = True"
| "is_run (Create_status r c st cx d) = False"
| "is_run (Get url) = False"
| "is_run (Reload u) = False"
| "is_run (Write_data j) = False"

text \<open>The map stored for a branch; the empty map when there is none.\<close>

definition stored_hashes :: "build_data \<Rightarrow> string \<Rightarrow> fingerprints" where
  "stored_hashes d branch =
     (case map_of (build_data.targets d) branch of None \<Rightarrow> [] | Some t \<Rightarrow> hashes t)"

definition added_keys :: "fingerprints \<Rightarrow> fingerprints \<Rightarrow> string list" where
  "added_keys new old = set_diff (key_set new) (key_set old)"

definition deleted_keys :: "fingerprints \<Rightarrow> fingerprints \<Rightarrow> string list" where
  "deleted_keys new old = set_diff (key_set old) (key_set new)"

definition changed_keys :: "world \<Rightarrow> fingerprints \<Rightarrow> fingerprints \<Rightarrow> string list" where
  "changed_keys w new old =
     filter (\<lambda>k. map_of new k \<noteq> map_of old k)
       (set_order w Overlapping_hashes (set_inter (key_set new) (key_set old)))"

text \<open>The keys in the order in which the delete stage and the sync stage take them.\<close>

definition deleted_order :: "world \<Rightarrow> fingerprints \<Rightarrow> fingerprints \<Rightarrow> string list" where
  "deleted_order w new old = set_order w Deleted_hashes (deleted_keys new old)"

definition synced_order :: "world \<Rightarrow> fingerprints \<Rightarrow> fingerprints \<Rightarrow> string list" where
  "synced_order w new old =
     set_order w Synced_hashes (set_union (changed_keys w new old) (added_keys new old))"

definition committed :: "build_data \<Rightarrow> string \<Rightarrow> fingerprints \<Rightarrow> build_data" where
  "committed d branch new =
     d\<lparr>build_data.targets := AList.update branch \<lparr>hashes = new\<rparr> (build_data.targets d)\<rparr>"

text \<open>
  The map of a branch in memory after the loop over \<open>new_hashes\<close> (line 213), and
  after the first \<open>m\<close> removals of the loop over \<open>deleted_hashes\<close> (line 233).
\<close>

definition insert_all :: "fingerprints \<Rightarrow> string list \<Rightarrow> fingerprints \<Rightarrow> fingerprints" where
  "insert_all new ks h = fold (\<lambda>k h. AList.update k (the (map_of new k)) h) ks h"

definition hashes_in_memory :: "world \<Rightarrow> fingerprints \<Rightarrow> fingerprints \<Rightarrow> nat \<Rightarrow> fingerprints" where
  "hashes_in_memory w new old m =
     fold AList.delete (take m (deleted_order w new old))
       (insert_all new (set_order w New_hashes (added_keys new old)) old)"

text \<open>
  The argument lists of the three commands that carry the stamp \<open>FT_PRODUCTION\<close>, for
  a given stamp.
\<close>

definition delete_command :: "string \<Rightarrow> target \<Rightarrow> string \<Rightarrow> string list" where
  "delete_command stamp target hash_key =
     (case controller_host target of
        None \<Rightarrow> [''rm'', ''-rf'', controller_fs_path target @ ''/experiences/'' @ hash_key]
      | Some host \<Rightarrow>
          if host \<noteq> [] then
            [''ssh'', ''-o'', ''SetEnv=FT_PRODUCTION='' @ stamp, host,
             ''rm -rf '' @ controller_fs_path target @ ''/experiences/'' @ hash_key]
          else [''rm'', ''-rf'', controller_fs_path target @ ''/experiences/'' @ hash_key])"

definition sync_command :: "world \<Rightarrow> string \<Rightarrow> target \<Rightarrow> string \<Rightarrow> string list" where
  "sync_command w stamp target hash_key =
     [''rsync'', ''-avP'', ''--delete'', ''-e'',
      ''ssh -o \"SetEnv=FT_PRODUCTION='' @ stamp @ ''\"'',
      ''--exclude=*.mp4'', ''--exclude=*.webm'',
      join_path (temp_dir w @ ''/experiences'') hash_key @ ''/'',
      controller_path target @ ''/experiences/'' @ hash_key]"

definition configs_command :: "world \<Rightarrow> string \<Rightarrow> target \<Rightarrow> string list" where
  "configs_command w stamp target =
     [''rsync'', ''-avP'', ''--delete'', ''-e'',
      ''ssh -o \"SetEnv=FT_PRODUCTION='' @ stamp @ ''\"'',
      temp_dir w @ ''/folders.toml'', temp_dir w @ ''/tags.toml'',
      temp_dir w @ ''/collections.toml'', controller_path target]"

text \<open>
  The calls of a run that starts with nothing issued, so that the \<open>n\<close>-th call of a
  list (counting from 0) is issued when \<open>n\<close> calls have been issued.  A stage that
  starts at position \<open>n\<close> issues its report there and its commands after it, each with
  the stamp read at its own position.
\<close>

definition delete_stage_calls :: "world \<Rightarrow> target \<Rightarrow> payload \<Rightarrow> nat \<Rightarrow> string list \<Rightarrow> call list" where
  "delete_stage_calls w target ev n deleted =
     report ev ''pending'' ''Deleting deleted experiences'' #
     map (\<lambda>(i, k). Run (delete_command (ft_production w i) target k)) (enumerate (Suc n) deleted)"

definition sync_stage_calls :: "world \<Rightarrow> target \<Rightarrow> payload \<Rightarrow> nat \<Rightarrow> string list \<Rightarrow> call list" where
  "sync_stage_calls w target ev n synced =
     report ev ''pending'' ''Syncing experiences'' #
     map (\<lambda>(i, k). Run (sync_command w (ft_production w i) target k)) (enumerate (Suc n) synced)"

definition experiences_fetch_calls :: "world \<Rightarrow> payload \<Rightarrow> string \<Rightarrow> call list" where
  "experiences_fetch_calls w ev url =
     [Get (artifacts_url (workflow_run ev)),
      report ev ''pending'' ''Downloading artifacts'',
      Run [''curl'', ''-H'', ''Authorization: token '' @ access_token w, ''-L'', url, ''-o'',
           temp_dir w @ ''/experiences.zip''],
      report ev ''pending'' ''Extracting artifacts'',
      Run [''unzip'', temp_dir w @ ''/experiences.zip'', ''-d'', temp_dir w],
      report ev ''pending'' ''Comparing hashes'']"

definition calls_before_commit ::
    "world \<Rightarrow> target \<Rightarrow> payload \<Rightarrow> string \<Rightarrow> fingerprints \<Rightarrow> fingerprints \<Rightarrow> call list" where
  "calls_before_commit w target ev url new old =
     experiences_fetch_calls w ev url @
     delete_stage_calls w target ev 6 (deleted_order w new old) @
     sync_stage_calls w target ev (7 + length (deleted_order w new old)) (synced_order w new old)"

definition calls_after_commit :: "world \<Rightarrow> target \<Rightarrow> payload \<Rightarrow> nat \<Rightarrow> call list" where
  "calls_after_commit w target ev n =
     [report ev ''pending'' ''Syncing editorial configs'',
      Run (configs_command w (ft_production w (Suc n)) target),
      report ev ''pending'' ''Reloading controller'',
      Reload (controller_api_url target),
      report ev ''success'' (''Successful in '' @ str_int (elapsed w) @ ''s'')]"

definition experiences_calls ::
    "world \<Rightarrow> target \<Rightarrow> payload \<Rightarrow> string \<Rightarrow> fingerprints \<Rightarrow> build_data \<Rightarrow> call list" where
  "experiences_calls w target ev url new d =
     (let branch = head_branch (workflow_run ev);
          before = calls_before_commit w target ev url new (stored_hashes d branch)
      in
      before @
      [Write_data (build_data_dict (committed d branch new))] @
      calls_after_commit w target ev (Suc (length before)))"

definition controls_calls :: "world \<Rightarrow> target \<Rightarrow> payload \<Rightarrow> string \<Rightarrow> call list" where
  "controls_calls w target ev url =
     [Get (artifacts_url (workflow_run ev)),
      report ev ''pending'' ''Downloading artifacts'',
      Run [''curl'', ''-H'', ''Authorization: token '' @ access_token w, ''-L'', url, ''-o'',
           temp_dir w @ ''/web-build.zip''],
      report ev ''pending'' ''Extracting artifacts'',
      Run [''unzip'', temp_dir w @ ''/web-build.zip'', ''-d'', temp_dir w @ ''/build''],
      report ev ''pending'' ''Copying web build'',
      Run [''rsync'', ''-e'', ''ssh -o \"SetEnv=FT_PRODUCTION='' @ ft_production w 6 @ ''\"'',
           ''-a'', ''--delete'', temp_dir w @ ''/build/'', web_path target],
      report ev ''pending'' ''Reloading controller'',
      Reload (controller_api_url target),
      report ev ''success'' (''Successful in '' @ str_int (elapsed w) @ ''s'')]"

text \<open>No call of the list, issued from the start of a run, raises.\<close>

definition none_raises :: "world \<Rightarrow> call list \<Rightarrow> bool" where
  "none_raises w cs = list_all (\<lambda>(i, c). \<not> raises c (reply w i)) (enumerate 0 cs)"

section \<open>Notions used in the proofs\<close>

text \<open>A call that depends on the point of the run at which it is issued.\<close>

definition perform_at :: "world \<Rightarrow> (nat \<Rightarrow> call) \<Rightarrow> unit prog" where
  "perform_at w c = (\<lambda>s. perform w (c (length (log s))) s)"

text \<open>A statement leaves a component of the state as it was, however it ends.\<close>

definition kept :: "(state \<Rightarrow> 'b) \<Rightarrow> 'a prog \<Rightarrow> bool" where
  "kept f p \<longleftrightarrow> (\<forall>s. f (snd (p s)) = f s)"

text \<open>
  A property \<open>N\<close> of the log holds as long as a statement runs on, and \<open>X e\<close> holds of
  the log when the statement raises \<open>e\<close>.
\<close>

definition obeys :: "(call list \<Rightarrow> bool) \<Rightarrow> (error \<Rightarrow> call list \<Rightarrow> bool) \<Rightarrow> 'a prog \<Rightarrow> bool" where
  "obeys N X p \<longleftrightarrow>
     (\<forall>s. N (log s) \<longrightarrow> (case p s of (Inl e, s') \<Rightarrow> X e (log s') | (Inr x, s') \<Rightarrow> N (log s')))"

definition law :: "world \<Rightarrow> (call \<Rightarrow> bool) \<Rightarrow> (call list \<Rightarrow> bool) \<Rightarrow> (error \<Rightarrow> call list \<Rightarrow> bool)
    \<Rightarrow> bool" where
  "law w A N X \<longleftrightarrow>
     (\<forall>l e. N l \<longrightarrow> X e l) \<and>
     (\<forall>l c. N l \<and> A c \<longrightarrow>
        (if raises c (reply w (length l)) then X (CallError c) (l @ [c]) else N (l @ [c])))"

text \<open>
  A statement that runs on a state whose stored data is \<open>committed d b h\<close> and whose
  log has \<open>n\<close> calls behaves as issuing the calls \<open>cs\<close>, except that it may replace the
  map \<open>h\<close> of the branch: by a map that satisfies \<open>Q\<close> when it runs on, by one that
  satisfies \<open>F m\<close> when it raises after \<open>m\<close> of its calls.
\<close>

definition simulates :: "world \<Rightarrow> build_data \<Rightarrow> string \<Rightarrow> nat \<Rightarrow> (fingerprints \<Rightarrow> bool) \<Rightarrow> unit prog
    \<Rightarrow> call list \<Rightarrow> (fingerprints \<Rightarrow> bool) \<Rightarrow> (nat \<Rightarrow> fingerprints \<Rightarrow> bool) \<Rightarrow> bool" where
  "simulates w d b n P p cs Q F \<longleftrightarrow>
     (\<forall>s h r s'. data s = committed d b h \<and> length (log s) = n \<and> P h \<and> p s = (r, s') \<longrightarrow>
        (\<exists>h' s''. issue w cs s = (r, s'') \<and> s' = s''\<lparr>data := committed d b h'\<rparr> \<and>
           (r = Inr () \<longrightarrow> Q h') \<and> (r \<noteq> Inr () \<longrightarrow> F (length (log s'') - n) h')))"

text \<open>Lines 225 to 278 of the handler, and lines 281 to 311, for given lists of keys.\<close>

definition stages_before_commit ::
    "world \<Rightarrow> target \<Rightarrow> payload \<Rightarrow> fingerprints \<Rightarrow> string list \<Rightarrow> string list \<Rightarrow> unit prog" where
  "stages_before_commit w t ev new deleted synced =
     bind (perform w (report ev ''pending'' ''Deleting deleted experiences'')) (\<lambda>_.
     bind (for_each deleted (delete_experience w t (head_branch (workflow_run ev)))) (\<lambda>_.
     bind (perform w (report ev ''pending'' ''Syncing experiences'')) (\<lambda>_.
     bind (for_each synced (sync_experience w t)) (\<lambda>_.
       modify_hashes (head_branch (workflow_run ev)) (\<lambda>_. new)))))"

definition stages_after_commit :: "world \<Rightarrow> target \<Rightarrow> payload \<Rightarrow> unit prog" where
  "stages_after_commit w t ev =
     bind (issue w [report ev ''pending'' ''Syncing editorial configs'']) (\<lambda>_.
     bind (perform_at w (\<lambda>n. Run (configs_command w (ft_production w n) t))) (\<lambda>_.
       issue w [report ev ''pending'' ''Reloading controller'',
                Reload (controller_api_url t),
                report ev ''success'' (''Successful in '' @ str_int (elapsed w) @ ''s'')]))"

section \<open>A deployment used as example\<close>

definition example_target :: target where
  "example_target =
     \<lparr>controller_path = ''ft:/srv/footron'', web_path = ''ft:/srv/web'',
      colors_path = ''ft:/srv/colors'', controller_api_url = ''http://ft:8000/''\<rparr>"

definition example_config :: config where
  "example_config = \<lparr>config.targets = [''main'' \<mapsto> example_target]\<rparr>"

text \<open>
  Every call completes with status 0; the clock shows hour 12 of day 3 up to the ninth
  call and hour 13 from then on; the sets are iterated in the order of their lists.
\<close>

definition example_world :: world where
  "example_world =
     \<lparr>reply = (\<lambda>n. Done 0),
      write_damage = (\<lambda>n. Cut_short),
      artifacts = [(''experiences'', ''https://gh/zip/1''), (''web-build'', ''https://gh/zip/2'')],
      manifest = Some [(''b'', ''2''), (''c'', ''3'')],
      temp_dir = ''/tmp/x'',
      ft_production = (\<lambda>n. if n < 9 then ''0312'' else ''0313''),
      iteration = (\<lambda>l. []),
      elapsed = 7, access_token = ''tok''\<rparr>"

definition example_run :: "string \<Rightarrow> string \<Rightarrow> payload" where
  "example_run branch workflow =
     \<lparr>workflow_run =
        \<lparr>status = ''completed'', event = ''push'', head_branch = branch, head_sha = ''abc'',
         name = workflow, artifacts_url = ''https://gh/artifacts''\<rparr>,
      repository = \<lparr>full_name = ''org/repo''\<rparr>\<rparr>"

definition example_data :: build_data where
  "example_data =
     \<lparr>build_data.targets = [(''main'', \<lparr>hashes = [(''a'', ''1''), (''b'', ''2'')]\<rparr>)]\<rparr>"

definition example_start :: state where
  "example_start = start example_data (Some (Document (build_data_dict example_data)))"

definition example_manifest :: fingerprints where
  "example_manifest = [(''b'', ''2''), (''c'', ''3'')]"

text \<open>
  Worlds that differ from \<open>example_world\<close> in one reply: the reload request is answered
  with status 500; the removal command of the delete stage exits with status 255, as
  \<open>ssh\<close> does when it cannot reach the host; the same command cannot be started; the
  first status report cannot be delivered; the write to \<open>DATA_PATH\<close> raises after the
  file has been opened.
\<close>

definition reload_fails :: world where
  "reload_fails = example_world\<lparr>reply := (\<lambda>n. if n = 14 then Done 500 else Done 0)\<rparr>"

definition delete_exits_255 :: world where
  "delete_exits_255 = example_world\<lparr>reply := (\<lambda>n. if n = 7 then Done 255 else Done 0)\<rparr>"

definition delete_raises :: world where
  "delete_raises = example_world\<lparr>reply := (\<lambda>n. if n = 7 then Fault else Done 0)\<rparr>"

definition sink_down :: world where
  "sink_down = example_world\<lparr>reply := (\<lambda>n. if n = 1 then Fault else Done 0)\<rparr>"

definition write_fails :: world where
  "write_fails = example_world\<lparr>reply := (\<lambda>n. if n = 10 then Fault else Done 0)\<rparr>"

text \<open>
  A deployment with two keys to remove and two to push, whose sets are iterated against
  the order of their lists.
\<close>

definition reversed_world :: world where
  "reversed_world =
     example_world\<lparr>manifest := Some [(''c'', ''3''), (''d'', ''4'')],
                   iteration := (\<lambda>l. [''d'', ''c'', ''b'', ''a''])\<rparr>"

definition run_example :: "world \<Rightarrow> string \<Rightarrow> (error + unit) \<times> state" where
  "run_example w workflow =
     handle_workflow_run_completed example_config w (example_run ''main'' workflow) example_start"

section \<open>The store on disk\<close>

lemma parse_items_str: "parse_items parse_str (map (\<lambda>(k, v). (k, JString v)) h) = Inr h"
  by (induction h) auto

lemma parse_target_dict: "parse_target (target_dict t) = Inr t"
  by (simp add: parse_target_def target_dict_def parse_items_str)

lemma parse_items_target: "parse_items parse_target (map (\<lambda>(b, t). (b, target_dict t)) ts) = Inr ts"
  by (induction ts) (auto simp: parse_target_dict)

lemma parse_obj_dict: "parse_obj (build_data_dict d) = Inr d"
  by (simp add: parse_obj_def build_data_dict_def parse_items_target)

lemma load_document: "load_build_data (Some (Document (build_data_dict d))) = Inr d"
  by (simp add: load_build_data_def parse_obj_dict)

lemma save_build_data_run:
  "save_build_data w s =
     (if raises (Write_data (build_data_dict (data s))) (reply w (length (log s)))
      then (Inl (CallError (Write_data (build_data_dict (data s)))),
            s\<lparr>disk := failed_write_leaves w (length (log s)) (build_data_dict (data s)) (disk s),
              log := log s @ [Write_data (build_data_dict (data s))]\<rparr>)
      else (Inr (), s\<lparr>disk := Some (Document (build_data_dict (data s))),
                      log := log s @ [Write_data (build_data_dict (data s))]\<rparr>))"
  by (simp add: save_build_data_def Let_def)

section \<open>Laws of the statements\<close>

lemma bind_ret [simp]: "bind (ret x) f = f x"
  by (simp add: bind_def ret_def)

lemma bind_raise [simp]: "bind (raise e) f = raise e"
  by (simp add: bind_def raise_def)

lemma bind_assoc: "bind (bind m f) g = bind m (\<lambda>x. bind (f x) g)"
  by (auto simp: bind_def fun_eq_iff split: prod.splits sum.splits)

lemma bind_unit_ret [simp]: "bind m (\<lambda>_. ret ()) = (m :: unit prog)"
  by (auto simp: bind_def ret_def fun_eq_iff split: prod.splits sum.splits)

lemma bind_ret_right [simp]: "bind m ret = m"
  by (auto simp: bind_def ret_def fun_eq_iff split: prod.splits sum.splits)

lemma block_append: "block (ps @ qs) = bind (block ps) (\<lambda>_. block qs)"
  by (induction ps) (simp_all add: bind_assoc)

lemma issue_append: "issue w (cs @ ds) = bind (issue w cs) (\<lambda>_. issue w ds)"
  by (induction cs) (simp_all add: bind_assoc)

lemma bind_Inr: "m s = (Inr x, s1) \<Longrightarrow> bind m f s = f x s1"
  by (simp add: bind_def)

lemma bind_Inl: "m s = (Inl e, s1) \<Longrightarrow> bind m f s = (Inl e, s1)"
  by (simp add: bind_def)

lemma for_each_Cons: "for_each (x # xs) body = bind (body x) (\<lambda>_. for_each xs body)"
  by (simp add: for_each_def)

lemma for_each_Nil: "for_each [] body = ret ()"
  by (simp add: for_each_def)

lemma perform_at_const: "perform_at w (\<lambda>n. c) = perform w c"
  by (simp add: perform_at_def)

lemma stamped_command:
  "bind (rsync_ssh_production_command w) (\<lambda>command. perform w (Run (argv command))) =
     perform_at w (\<lambda>n. Run (argv (''ssh -o \"SetEnv=FT_PRODUCTION='' @ ft_production w n @ ''\"'')))"
  by (simp add: fun_eq_iff rsync_ssh_production_command_def ssh_production_option_def
      now_stamp_def bind_def ret_def perform_at_def)

lemma stamped_option:
  "bind (split_ssh_production_option w) (\<lambda>option. perform w (Run (argv option))) =
     perform_at w (\<lambda>n. Run (argv [''-o'', ''SetEnv=FT_PRODUCTION='' @ ft_production w n]))"
  by (simp add: fun_eq_iff split_ssh_production_option_def now_stamp_def bind_def ret_def
      perform_at_def)

lemma delete_experience_eq:
  "delete_experience w t b k =
     bind (del_hash b k) (\<lambda>_. perform_at w (\<lambda>n. Run (delete_command (ft_production w n) t k)))"
  by (simp add: delete_experience_def delete_command_def subprocess_run_def stamped_option
      perform_at_const split: option.splits)

lemma sync_experience_eq:
  "sync_experience w t k = perform_at w (\<lambda>n. Run (sync_command w (ft_production w n) t k))"
  by (simp add: sync_experience_def sync_command_def subprocess_run_def stamped_command
      temp_path_def)

lemma issue_frame:
  "issue w cs s = (r, s') \<Longrightarrow> data s' = data s \<and> disk s' = disk s"
proof (induction cs arbitrary: s)
  case Nil
  then show ?case by (simp add: ret_def)
next
  case (Cons c cs)
  then show ?case
    by (auto simp: bind_def perform_def split: if_splits)
qed

lemma issue_state:
  "issue w cs s = (r, s') \<Longrightarrow> issue w cs (s\<lparr>data := d, disk := f\<rparr>) = (r, s'\<lparr>data := d, disk := f\<rparr>)"
proof (induction cs arbitrary: s)
  case Nil
  then show ?case by (auto simp: ret_def)
next
  case (Cons c cs)
  have eq: "s\<lparr>data := d, disk := f, log := log s @ [c]\<rparr> = (s\<lparr>log := log s @ [c]\<rparr>)\<lparr>data := d, disk := f\<rparr>"
    by (cases s) simp
  show ?case
  proof (cases "raises c (reply w (length (log s)))")
    case True
    with Cons.prems show ?thesis
      by (cases s) (auto simp: bind_def perform_def)
  next
    case False
    with Cons.prems have "issue w cs (s\<lparr>log := log s @ [c]\<rparr>) = (r, s')"
      by (simp add: bind_def perform_def)
    from Cons.IH[OF this] have "issue w cs (s\<lparr>data := d, disk := f, log := log s @ [c]\<rparr>) = (r, s'\<lparr>data := d, disk := f\<rparr>)"
      unfolding eq .
    with False show ?thesis
      by (simp add: bind_def perform_def)
  qed
qed

lemma issue_data:
  "issue w cs s = (r, s') \<Longrightarrow> issue w cs (s\<lparr>data := d\<rparr>) = (r, s'\<lparr>data := d\<rparr>)"
proof -
  assume a: "issue w cs s = (r, s')"
  have "s\<lparr>data := d\<rparr> = s\<lparr>data := d, disk := disk s\<rparr>" by simp
  moreover have "s'\<lparr>data := d\<rparr> = s'\<lparr>data := d, disk := disk s\<rparr>"
    using issue_frame[OF a] by simp
  ultimately show ?thesis using issue_state[OF a, where d=d and f="disk s"] by simp
qed

lemma issue_prefix:
  "issue w cs s = (r, s') \<Longrightarrow>
     \<exists>n \<le> length cs. log s' = log s @ take n cs \<and> (r = Inr () \<longrightarrow> n = length cs)"
proof (induction cs arbitrary: s)
  case Nil
  then show ?case by (simp add: ret_def)
next
  case (Cons c cs)
  show ?case
  proof (cases "raises c (reply w (length (log s)))")
    case True
    with Cons.prems have "r = Inl (CallError c)" "s' = s\<lparr>log := log s @ [c]\<rparr>"
      by (auto simp: bind_def perform_def)
    then show ?thesis
      by (intro exI[of _ 1]) simp
  next
    case False
    with Cons.prems have run: "issue w cs (s\<lparr>log := log s @ [c]\<rparr>) = (r, s')"
      by (simp add: bind_def perform_def)
    from Cons.IH[OF run] obtain n where "n \<le> length cs"
      "log s' = log s @ [c] @ take n cs" "r = Inr () \<longrightarrow> n = length cs"
      by auto
    then show ?thesis
      by (intro exI[of _ "Suc n"]) simp
  qed
qed

lemma issue_none_raises:
  "list_all (\<lambda>(i, c). \<not> raises c (reply w i)) (enumerate (length (log s)) cs) \<Longrightarrow>
     issue w cs s = (Inr (), s\<lparr>log := log s @ cs\<rparr>)"
proof (induction cs arbitrary: s)
  case Nil
  then show ?case by (simp add: ret_def)
next
  case (Cons c cs)
  from Cons.prems have c: "\<not> raises c (reply w (length (log s)))"
    and rest: "list_all (\<lambda>(i, c). \<not> raises c (reply w i)) (enumerate (length (log (s\<lparr>log := log s @ [c]\<rparr>))) cs)"
    by simp_all
  from Cons.IH[OF rest] c show ?case
    by (simp add: bind_def perform_def)
qed

lemma issue_cases:
  "issue w cs s = (r, s') \<Longrightarrow>
     (r = Inr () \<and> log s' = log s @ cs) \<or>
     (\<exists>n < length cs. r = Inl (CallError (cs ! n)) \<and> log s' = log s @ take (Suc n) cs)"
proof (induction cs arbitrary: s)
  case Nil
  then show ?case by (simp add: ret_def)
next
  case (Cons c cs)
  show ?case
  proof (cases "raises c (reply w (length (log s)))")
    case True
    with Cons.prems have "r = Inl (CallError c)" "s' = s\<lparr>log := log s @ [c]\<rparr>"
      by (auto simp: bind_def perform_def)
    then have "0 < length (c # cs) \<and> r = Inl (CallError ((c # cs) ! 0))
        \<and> log s' = log s @ take (Suc 0) (c # cs)" by simp
    then show ?thesis by blast
  next
    case False
    with Cons.prems have run: "issue w cs (s\<lparr>log := log s @ [c]\<rparr>) = (r, s')"
      by (simp add: bind_def perform_def)
    from Cons.IH[OF run] show ?thesis
    proof (elim disjE exE conjE)
      assume "r = Inr ()" "log s' = log (s\<lparr>log := log s @ [c]\<rparr>) @ cs"
      then show ?thesis by simp
    next
      fix n assume "n < length cs" "r = Inl (CallError (cs ! n))"
        "log s' = log (s\<lparr>log := log s @ [c]\<rparr>) @ take (Suc n) cs"
      then have "Suc n < length (c # cs) \<and> r = Inl (CallError ((c # cs) ! Suc n))
        \<and> log s' = log s @ take (Suc (Suc n)) (c # cs)" by simp
      then show ?thesis by blast
    qed
  qed
qed

lemma issue_length:
  assumes "issue w cs s = (r, s')"
  shows "r = Inr () \<Longrightarrow> length (log s') = length (log s) + length cs"
    and "r \<noteq> Inr () \<Longrightarrow> length (log s) < length (log s') \<and> length (log s') \<le> length (log s) + length cs"
  using issue_cases[OF assms] by auto

lemma issue_perform_at:
  "bind (issue w cs) (\<lambda>_. bind (perform_at w c) (\<lambda>_. issue w ds)) s =
     issue w (cs @ c (length (log s) + length cs) # ds) s"
proof -
  obtain r1 s1 where i1: "issue w cs s = (r1, s1)" by (cases "issue w cs s")
  show ?thesis
  proof (cases r1)
    case (Inl e)
    with i1 show ?thesis by (simp add: issue_append bind_def)
  next
    case (Inr u)
    with issue_length(1)[OF i1] have "length (log s1) = length (log s) + length cs" by simp
    then have "perform_at w c s1 = perform w (c (length (log s) + length cs)) s1"
      by (simp add: perform_at_def)
    with i1 Inr show ?thesis by (simp add: issue_append bind_def)
  qed
qed

lemma sync_loop_run:
  "for_each ks (sync_experience w t) s =
     issue w (map (\<lambda>(i, k). Run (sync_command w (ft_production w i) t k))
                (enumerate (length (log s)) ks)) s"
proof (induction ks arbitrary: s)
  case Nil
  show ?case by (simp add: for_each_Nil)
next
  case (Cons k ks)
  let ?c = "Run (sync_command w (ft_production w (length (log s))) t k)"
  have "length (log (s\<lparr>log := log s @ [?c]\<rparr>)) = Suc (length (log s))" by simp
  with Cons[of "s\<lparr>log := log s @ [?c]\<rparr>"] show ?case
    by (simp add: for_each_Cons sync_experience_eq perform_at_def bind_def perform_def)
qed

section \<open>What statements keep\<close>

lemma kept_ret: "kept f (ret x)" by (simp add: kept_def ret_def)
lemma kept_raise: "kept f (raise e)" by (simp add: kept_def raise_def)
lemma kept_bind: "kept f p \<Longrightarrow> (\<And>x. kept f (g x)) \<Longrightarrow> kept f (bind p g)"
  by (auto simp: kept_def bind_def split: prod.splits sum.splits) (metis snd_conv)+
lemma kept_block: "(\<And>p. p \<in> set ps \<Longrightarrow> kept f p) \<Longrightarrow> kept f (block ps)"
  by (induction ps) (auto intro!: kept_bind kept_ret)
lemma kept_for_each: "(\<And>x. kept f (body x)) \<Longrightarrow> kept f (for_each xs body)"
  unfolding for_each_def by (rule kept_block) auto

lemma kept_lookup: "kept f (lookup d k)"
  by (simp add: lookup_def kept_ret kept_raise split: option.splits)
lemma kept_get_hashes: "kept f (get_hashes b)"
  by (simp add: kept_def get_hashes_def split: option.splits)
lemma kept_modify_hashes_log: "kept log (modify_hashes b g)"
  by (simp add: kept_def modify_hashes_def split: option.splits)
lemma kept_ensure_target_log: "kept log (ensure_target b)"
  by (simp add: kept_def ensure_target_def)
lemma kept_read_hashes_file: "kept f (read_hashes_file w)"
  by (simp add: read_hashes_file_def kept_ret kept_raise split: option.splits)
lemma kept_changed_loop: "kept f (changed_loop h e ks acc)"
  by (induction ks arbitrary: acc) (auto intro!: kept_bind kept_ret kept_lookup)
lemma kept_del_hash_log: "kept log (del_hash b k)"
  by (auto simp: del_hash_def intro!: kept_bind kept_get_hashes kept_raise kept_modify_hashes_log)
lemma kept_now_stamp: "kept f (now_stamp w)"
  by (simp add: kept_def now_stamp_def)
lemma kept_rsync_ssh_production_command: "kept f (rsync_ssh_production_command w)"
  unfolding rsync_ssh_production_command_def ssh_production_option_def
  by (intro kept_bind kept_now_stamp kept_ret)
lemma kept_split_ssh_production_option: "kept f (split_ssh_production_option w)"
  unfolding split_ssh_production_option_def
  by (intro kept_bind kept_now_stamp kept_ret)

lemma kept_compare_hashes_log: "kept log (compare_hashes w b h)"
  unfolding compare_hashes_def Let_def set_hash_def
  by (intro kept_bind kept_ensure_target_log kept_get_hashes kept_for_each kept_lookup
      kept_modify_hashes_log kept_changed_loop kept_ret)

section \<open>Properties of the log\<close>

lemma obeys_ret: "obeys N X (ret x)" by (simp add: obeys_def ret_def)

lemma obeys_raise: "law w A N X \<Longrightarrow> obeys N X (raise e)"
  by (simp add: obeys_def raise_def law_def)

lemma obeys_bind:
  assumes p: "obeys N X p" and g: "\<And>x. obeys N X (g x)"
  shows "obeys N X (bind p g)"
  unfolding obeys_def
proof (intro allI impI)
  fix s :: state assume N: "N (log s)"
  obtain r s1 where ps: "p s = (r, s1)" by (cases "p s")
  show "case bind p g s of (Inl e, s') \<Rightarrow> X e (log s') | (Inr x, s') \<Rightarrow> N (log s')"
  proof (cases r)
    case (Inl e)
    with p N ps show ?thesis by (auto simp: obeys_def bind_def)
  next
    case (Inr x)
    with p N ps have "N (log s1)" by (auto simp: obeys_def)
    with g[of x] have "case g x s1 of (Inl e, s') \<Rightarrow> X e (log s') | (Inr x, s') \<Rightarrow> N (log s')"
      by (simp add: obeys_def)
    with ps Inr show ?thesis by (simp add: bind_def)
  qed
qed

lemma obeys_block: "(\<And>p. p \<in> set ps \<Longrightarrow> obeys N X p) \<Longrightarrow> obeys N X (block ps)"
proof (induction ps)
  case Nil
  show ?case by (simp add: obeys_ret)
next
  case (Cons p ps)
  show ?case
    by (simp, rule obeys_bind) (simp_all add: Cons)
qed

lemma obeys_for_each: "(\<And>x. obeys N X (body x)) \<Longrightarrow> obeys N X (for_each xs body)"
  unfolding for_each_def by (rule obeys_block) auto

lemma obeys_perform: "law w A N X \<Longrightarrow> A c \<Longrightarrow> obeys N X (perform w c)"
  by (simp add: obeys_def perform_def law_def)

lemma obeys_quiet:
  assumes "law w A N X" and "kept log p"
  shows "obeys N X p"
  unfolding obeys_def
proof (intro allI impI)
  fix s :: state assume N: "N (log s)"
  obtain r s1 where ps: "p s = (r, s1)" by (cases "p s")
  with assms(2) have "log s1 = log s" by (simp add: kept_def) (metis snd_conv)
  with N assms(1) ps show "case p s of (Inl e, s') \<Rightarrow> X e (log s') | (Inr x, s') \<Rightarrow> N (log s')"
    by (cases r) (simp_all add: law_def)
qed

lemma obeys_save: "law w A N X \<Longrightarrow> (\<And>j. A (Write_data j)) \<Longrightarrow> obeys N X (save_build_data w)"
  by (simp add: obeys_def save_build_data_def Let_def law_def)

lemma obeys_case_option:
  "obeys N X a \<Longrightarrow> (\<And>y. obeys N X (b y)) \<Longrightarrow> obeys N X (case x of None \<Rightarrow> a | Some y \<Rightarrow> b y)"
  by (cases x) simp_all

lemma controls_obeys:
  assumes L: "law w A N X"
    and A: "\<And>c. \<not> is_report ''success'' c \<Longrightarrow> \<not> is_report ''failure'' c \<Longrightarrow> \<not> is_write c \<Longrightarrow> A c"
  shows "obeys N X (controls_pipeline w t ev)"
proof -
  have P: "\<And>c. \<not> is_report ''success'' c \<Longrightarrow> \<not> is_report ''failure'' c \<Longrightarrow> \<not> is_write c
      \<Longrightarrow> obeys N X (perform w c)"
    using obeys_perform[OF L] A by blast
  have S: "\<And>r sh cx d. obeys N X (set_commit_status w r sh ''pending'' cx d)"
    unfolding set_commit_status_def by (rule P) simp_all
  have R: "\<And>argv. obeys N X (subprocess_run w argv)"
    unfolding subprocess_run_def by (rule P) simp_all
  have Rl: "obeys N X (reload_controller w t)"
    unfolding reload_controller_def by (rule P) simp_all
  have G: "\<And>url. obeys N X (github_get_request w url)"
    unfolding github_get_request_def by (intro obeys_bind obeys_ret P) simp_all
  have C: "\<And>argv. obeys N X (bind (rsync_ssh_production_command w) (\<lambda>command. subprocess_run w (argv command)))"
    by (intro obeys_bind obeys_quiet[OF L kept_rsync_ssh_production_command] R)
  show ?thesis
    unfolding controls_pipeline_def Let_def
    by (intro obeys_bind G obeys_case_option obeys_raise[OF L] obeys_block)
       (auto intro: S R Rl C)
qed

lemma experiences_obeys:
  assumes L: "law w A N X"
    and A: "\<And>c. \<not> is_report ''success'' c \<Longrightarrow> \<not> is_report ''failure'' c \<Longrightarrow> A c"
  shows "obeys N X (experiences_pipeline w t ev)"
proof -
  have P: "\<And>c. \<not> is_report ''success'' c \<Longrightarrow> \<not> is_report ''failure'' c \<Longrightarrow> obeys N X (perform w c)"
    using obeys_perform[OF L] A by blast
  have S: "\<And>r sh cx d. obeys N X (set_commit_status w r sh ''pending'' cx d)"
    unfolding set_commit_status_def by (rule P) simp_all
  have R: "\<And>argv. obeys N X (subprocess_run w argv)"
    unfolding subprocess_run_def by (rule P) simp_all
  have Rl: "obeys N X (reload_controller w t)"
    unfolding reload_controller_def by (rule P) simp_all
  have G: "\<And>url. obeys N X (github_get_request w url)"
    unfolding github_get_request_def by (intro obeys_bind obeys_ret P) simp_all
  have C: "\<And>argv. obeys N X (bind (rsync_ssh_production_command w) (\<lambda>command. subprocess_run w (argv command)))"
    by (intro obeys_bind obeys_quiet[OF L kept_rsync_ssh_production_command] R)
  have O: "\<And>argv. obeys N X (bind (split_ssh_production_option w) (\<lambda>option. subprocess_run w (argv option)))"
    by (intro obeys_bind obeys_quiet[OF L kept_split_ssh_production_option] R)
  have D: "\<And>b k. obeys N X (delete_experience w t b k)"
    unfolding delete_experience_def
    by (rule obeys_block) (auto intro: R O obeys_quiet[OF L kept_del_hash_log] split: option.splits)
  have Sy: "\<And>k. obeys N X (sync_experience w t k)"
    unfolding sync_experience_def by (rule C)
  have Sv: "obeys N X (save_build_data w)"
    by (rule obeys_save[OF L], rule A) simp_all
  show ?thesis
    unfolding experiences_pipeline_def Let_def split_def
    by (intro obeys_bind G obeys_case_option obeys_raise[OF L] obeys_block
          obeys_quiet[OF L kept_compare_hashes_log] obeys_quiet[OF L kept_read_hashes_file])
       (auto intro: S R Rl Sv C obeys_for_each D Sy obeys_quiet[OF L kept_modify_hashes_log])
qed

lemma handle_obeys:
  assumes L: "law w A N X"
    and A: "\<And>c. \<not> is_report ''failure'' c \<Longrightarrow> A c"
  shows "obeys N X (handle_workflow_run_completed cfg w ev)"
proof -
  have A': "\<And>c. \<not> is_report ''success'' c \<Longrightarrow> \<not> is_report ''failure'' c \<Longrightarrow> A c"
    using A by blast
  note pl = controls_obeys[OF L A'] experiences_obeys[OF L A']
  have fin: "\<And>r sh cx d. obeys N X (set_commit_status w r sh ''success'' cx d)"
    unfolding set_commit_status_def by (rule obeys_perform[OF L], rule A) simp
  show ?thesis
    unfolding handle_workflow_run_completed_def Let_def
    by (auto intro!: obeys_ret obeys_raise[OF L] obeys_bind pl fin split: option.splits)
qed

lemma obeys_Inr: "obeys N X p \<Longrightarrow> N (log s) \<Longrightarrow> p s = (Inr x, s') \<Longrightarrow> N (log s')"
  unfolding obeys_def by (drule spec[of _ s]) simp

lemma obeys_run:
  fixes s :: state
  assumes "obeys N (\<lambda>e. N) p" and "N (log s)" and "p s = (r, s')"
  shows "N (log s')"
proof -
  from assms(1) have "N (log s) \<longrightarrow> (case p s of (Inl e, s') \<Rightarrow> N (log s') | (Inr x, s') \<Rightarrow> N (log s'))"
    unfolding obeys_def by (rule spec)
  with assms(2,3) show ?thesis by (cases r) simp_all
qed

section \<open>The stored map of a branch\<close>

lemma stored_committed [simp]: "stored_hashes (committed d b h) b = h"
  by (simp add: stored_hashes_def committed_def update_conv')

lemma committed_twice [simp]: "committed (committed d b h) b h' = committed d b h'"
  by (simp add: committed_def)

lemma committed_stored:
  "b \<in> fst ` set (build_data.targets d) \<Longrightarrow> committed d b (stored_hashes d b) = d"
proof -
  assume "b \<in> fst ` set (build_data.targets d)"
  then obtain t where t: "map_of (build_data.targets d) b = Some t"
    by (metis domD dom_map_of_conv_image_fst)
  have "\<lparr>hashes = hashes t\<rparr> = t" by simp
  with t show ?thesis
    by (simp add: committed_def stored_hashes_def update_triv)
qed

lemma stored_absent:
  "b \<notin> fst ` set (build_data.targets d) \<Longrightarrow> stored_hashes d b = []"
proof -
  assume "b \<notin> fst ` set (build_data.targets d)"
  then have "map_of (build_data.targets d) b = None"
    by (simp add: map_of_eq_None_iff)
  then show ?thesis by (simp add: stored_hashes_def)
qed

lemma ensure_target_run:
  "ensure_target b s = (Inr (), s\<lparr>data := committed (data s) b (stored_hashes (data s) b)\<rparr>)"
  by (cases "b \<in> fst ` set (build_data.targets (data s))")
     (simp_all add: ensure_target_def committed_stored stored_absent, simp add: committed_def)

lemma get_hashes_run:
  "data s = committed d b h \<Longrightarrow> get_hashes b s = (Inr h, s)"
  by (simp add: get_hashes_def committed_def update_conv')

lemma modify_hashes_run:
  "data s = committed d b h \<Longrightarrow> modify_hashes b g s = (Inr (), s\<lparr>data := committed d b (g h)\<rparr>)"
  by (simp add: modify_hashes_def committed_def update_conv')

section \<open>Sets of keys and their order\<close>

lemma key_set_set [simp]: "set (key_set d) = fst ` set d"
  by (simp add: key_set_def)

lemma distinct_key_set [simp]: "distinct (key_set d)"
  by (simp add: key_set_def)

lemma set_diff_set [simp]: "set (set_diff xs ys) = set xs - set ys"
  by (auto simp: set_diff_def)

lemma set_inter_set [simp]: "set (set_inter xs ys) = set xs \<inter> set ys"
  by (auto simp: set_inter_def)

lemma set_union_set [simp]: "set (set_union xs ys) = set xs \<union> set ys"
  by (auto simp: set_union_def)

lemma distinct_set_diff [simp]: "distinct xs \<Longrightarrow> distinct (set_diff xs ys)"
  by (simp add: set_diff_def)

lemma distinct_set_inter [simp]: "distinct xs \<Longrightarrow> distinct (set_inter xs ys)"
  by (simp add: set_inter_def)

lemma distinct_set_union [simp]: "distinct xs \<Longrightarrow> distinct ys \<Longrightarrow> distinct (set_union xs ys)"
  by (auto simp: set_union_def)

lemma set_set_order [simp]: "set (set_order w l xs) = set xs"
  by (auto simp: set_order_def)

lemma distinct_set_order [simp]: "distinct xs \<Longrightarrow> distinct (set_order w l xs)"
  by (auto simp: set_order_def)

lemma set_added_keys [simp]: "set (added_keys new old) = fst ` set new - fst ` set old"
  by (simp add: added_keys_def)

lemma set_deleted_keys [simp]: "set (deleted_keys new old) = fst ` set old - fst ` set new"
  by (simp add: deleted_keys_def)

lemma set_changed_keys [simp]:
  "set (changed_keys w new old) =
     {k \<in> fst ` set new \<inter> fst ` set old. map_of new k \<noteq> map_of old k}"
  by (auto simp: changed_keys_def)

lemma distinct_changed_keys [simp]: "distinct (changed_keys w new old)"
  by (simp add: changed_keys_def)

lemma set_deleted_order [simp]: "set (deleted_order w new old) = fst ` set old - fst ` set new"
  by (simp add: deleted_order_def)

lemma distinct_deleted_order [simp]: "distinct (deleted_order w new old)"
  by (simp add: deleted_order_def deleted_keys_def)

lemma set_synced_order:
  "set (synced_order w new old) = {k \<in> fst ` set new. map_of new k \<noteq> map_of old k}"
proof -
  have "\<And>k. k \<in> fst ` set new \<Longrightarrow> k \<notin> fst ` set old \<Longrightarrow> map_of new k \<noteq> map_of old k"
    by (metis map_of_eq_None_iff)
  then show ?thesis
    by (auto simp: synced_order_def)
qed

lemma distinct_synced_order [simp]: "distinct (synced_order w new old)"
  by (simp add: synced_order_def added_keys_def)

section \<open>Comparing the hashes\<close>

lemma insert_all_map_of:
  "k \<notin> set ks \<Longrightarrow> map_of (insert_all new ks h) k = map_of h k"
  unfolding insert_all_def
  by (induction ks arbitrary: h) (simp_all add: update_conv')

lemma insert_all_keys:
  "fst ` set h \<subseteq> fst ` set (insert_all new ks h)"
  unfolding insert_all_def
proof (induction ks arbitrary: h)
  case Nil
  show ?case by simp
next
  case (Cons k ks)
  have "fst ` set h \<subseteq> fst ` set (AList.update k (the (map_of new k)) h)"
    by (auto simp: dom_update)
  also have "\<dots> \<subseteq> fst ` set (fold (\<lambda>k h. AList.update k (the (map_of new k)) h) ks
      (AList.update k (the (map_of new k)) h))"
    by (rule Cons.IH)
  finally show ?case by simp
qed

lemma lookup_present:
  "k \<in> fst ` set d \<Longrightarrow> lookup d k = ret (the (map_of d k))"
proof -
  assume "k \<in> fst ` set d"
  then obtain v where "map_of d k = Some v"
    by (metis domD dom_map_of_conv_image_fst)
  then show ?thesis by (simp add: lookup_def)
qed

lemma insert_loop_run:
  assumes "set ks \<subseteq> fst ` set new" and "data s = committed d b h"
  shows "for_each ks (\<lambda>hash_key. bind (lookup new hash_key) (set_hash b hash_key)) s =
     (Inr (), s\<lparr>data := committed d b (insert_all new ks h)\<rparr>)"
  using assms
proof (induction ks arbitrary: s h)
  case Nil
  then show ?case by (simp add: for_each_def ret_def insert_all_def)
next
  case (Cons k ks)
  let ?h = "AList.update k (the (map_of new k)) h"
  let ?s = "s\<lparr>data := committed d b ?h\<rparr>"
  from Cons.prems have k: "k \<in> fst ` set new" and ks: "set ks \<subseteq> fst ` set new" by auto
  have step: "bind (lookup new k) (set_hash b k) s = (Inr (), ?s)"
    using modify_hashes_run[OF Cons.prems(2)]
    by (simp add: lookup_present[OF k] set_hash_def)
  have "data ?s = committed d b ?h" by simp
  from Cons.IH[OF ks this]
  have "for_each ks (\<lambda>hash_key. bind (lookup new hash_key) (set_hash b hash_key)) ?s =
     (Inr (), s\<lparr>data := committed d b (insert_all new (k # ks) h)\<rparr>)"
    by (simp add: insert_all_def)
  with step show ?case
    by (simp add: for_each_def bind_def)
qed

lemma changed_loop_run:
  assumes "set ks \<subseteq> fst ` set new" and "set ks \<subseteq> fst ` set h"
    and "distinct ks" and "set ks \<inter> set acc = {}"
  shows "changed_loop new h ks acc s = (Inr (acc @ filter (\<lambda>k. map_of new k \<noteq> map_of h k) ks), s)"
  using assms
proof (induction ks arbitrary: acc)
  case Nil
  then show ?case by (simp add: ret_def)
next
  case (Cons k ks)
  from Cons.prems have kn: "k \<in> fst ` set new" and kh: "k \<in> fst ` set h" by auto
  obtain a where a: "map_of new k = Some a" using kn by (metis domD dom_map_of_conv_image_fst)
  obtain c where c: "map_of h k = Some c" using kh by (metis domD dom_map_of_conv_image_fst)
  let ?acc = "if a \<noteq> c then set_add acc k else acc"
  from Cons.prems have notin: "k \<notin> set acc" by auto
  have acc: "?acc = (if a \<noteq> c then acc @ [k] else acc)"
    using notin by (simp add: set_add_def)
  from Cons.prems have "set ks \<subseteq> fst ` set new" "set ks \<subseteq> fst ` set h" "distinct ks"
    "set ks \<inter> set ?acc = {}"
    by (auto simp: set_add_def)
  from Cons.IH[OF this]
  have "changed_loop new h ks ?acc s = (Inr (?acc @ filter (\<lambda>k. map_of new k \<noteq> map_of h k) ks), s)" .
  then show ?case
    using a c acc by (simp add: lookup_def bind_def ret_def)
qed

lemma compare_hashes_run:
  assumes old_def: "old = stored_hashes (data s) b"
  shows "compare_hashes w b new s =
     (Inr (added_keys new old, deleted_keys new old, set_inter (key_set new) (key_set old),
           changed_keys w new old),
      s\<lparr>data := committed (data s) b
                 (insert_all new (set_order w New_hashes (added_keys new old)) old)\<rparr>)"
proof -
  let ?an = "set_order w New_hashes (set_diff (key_set new) (key_set old))"
  let ?s0 = "s\<lparr>data := committed (data s) b old\<rparr>"
  let ?h = "insert_all new ?an old"
  let ?s1 = "s\<lparr>data := committed (data s) b ?h\<rparr>"
  let ?ov = "set_order w Overlapping_hashes (set_inter (key_set new) (key_set old))"
  have e: "ensure_target b s = (Inr (), ?s0)"
    unfolding old_def by (rule ensure_target_run)
  have d0: "data ?s0 = committed (data s) b old" by simp
  have g0: "get_hashes b ?s0 = (Inr old, ?s0)"
    by (rule get_hashes_run[OF d0])
  have an: "set ?an \<subseteq> fst ` set new" by auto
  from insert_loop_run[OF this d0]
  have l: "for_each ?an (\<lambda>hash_key. bind (lookup new hash_key) (set_hash b hash_key)) ?s0
      = (Inr (), ?s1)" by simp
  have d1: "data ?s1 = committed (data s) b ?h" by simp
  have g1: "get_hashes b ?s1 = (Inr ?h, ?s1)"
    by (rule get_hashes_run[OF d1])
  have ov_new: "set ?ov \<subseteq> fst ` set new" by auto
  have "set ?ov \<subseteq> fst ` set old" by auto
  with insert_all_keys[of old new ?an] have ov_h: "set ?ov \<subseteq> fst ` set ?h" by blast
  have dist: "distinct ?ov" by simp
  have same: "\<And>k. k \<in> set ?ov \<Longrightarrow> map_of ?h k = map_of old k"
    by (rule insert_all_map_of) auto
  have "filter (\<lambda>k. map_of new k \<noteq> map_of ?h k) ?ov = changed_keys w new old"
    unfolding changed_keys_def by (rule filter_cong) (simp_all add: same)
  with changed_loop_run[OF ov_new ov_h dist, of "[]" ?s1]
  have c: "changed_loop new ?h ?ov [] ?s1 = (Inr (changed_keys w new old), ?s1)" by simp
  show ?thesis
    unfolding compare_hashes_def
    apply (simp only: bind_Inr[where m="ensure_target b" and s=s, OF e])
    apply (simp only: bind_Inr[where m="get_hashes b" and s="?s0", OF g0] Let_def)
    apply (simp only: bind_Inr[where m="for_each ?an (\<lambda>hash_key. bind (lookup new hash_key) (set_hash b hash_key))" and s="?s0", OF l])
    apply (simp only: bind_Inr[where m="get_hashes b" and s="?s1", OF g1])
    apply (simp only: bind_Inr[where m="changed_loop new ?h ?ov []" and s="?s1", OF c])
    apply (simp add: ret_def added_keys_def deleted_keys_def)
    done
qed

section \<open>Runs as sequences of calls\<close>

lemma simulatesD:
  assumes "simulates w d b n P p cs Q F"
    and "data s = committed d b h" and "length (log s) = n" and "P h" and "p s = (r, s')"
  shows "\<exists>h' s''. issue w cs s = (r, s'') \<and> s' = s''\<lparr>data := committed d b h'\<rparr> \<and>
           (r = Inr () \<longrightarrow> Q h') \<and> (r \<noteq> Inr () \<longrightarrow> F (length (log s'') - n) h')"
  using assms unfolding simulates_def by blast

lemma sim_weaken:
  assumes sim: "simulates w d b n P p cs Q F"
    and P: "\<And>h. P' h \<Longrightarrow> P h" and Q: "\<And>h. Q h \<Longrightarrow> Q' h" and F: "\<And>m h. F m h \<Longrightarrow> F' m h"
  shows "simulates w d b n P' p cs Q' F'"
  unfolding simulates_def
proof (intro allI impI, elim conjE)
  fix s :: state and h r s'
  assume d: "data s = committed d b h" and n: "length (log s) = n" and P': "P' h"
    and run: "p s = (r, s')"
  from simulatesD[OF sim d n P[OF P'] run] obtain h' s'' where
    "issue w cs s = (r, s'')" "s' = s''\<lparr>data := committed d b h'\<rparr>"
    "r = Inr () \<longrightarrow> Q h'" "r \<noteq> Inr () \<longrightarrow> F (length (log s'') - n) h'"
    by blast
  with Q F show "\<exists>h' s''. issue w cs s = (r, s'') \<and> s' = s''\<lparr>data := committed d b h'\<rparr> \<and>
      (r = Inr () \<longrightarrow> Q' h') \<and> (r \<noteq> Inr () \<longrightarrow> F' (length (log s'') - n) h')"
    by blast
qed

lemma sim_pure:
  assumes eq: "\<And>s. length (log s) = n \<Longrightarrow> p s = issue w cs s"
  shows "simulates w d b n P p cs P (\<lambda>m. P)"
  unfolding simulates_def
proof (intro allI impI, elim conjE)
  fix s :: state and h r s'
  assume d: "data s = committed d b h" and n: "length (log s) = n" and P: "P h"
    and run: "p s = (r, s')"
  from run eq[OF n] have i: "issue w cs s = (r, s')" by simp
  have "s' = s'\<lparr>data := committed d b h\<rparr>" using issue_frame[OF i] d by simp
  with i P show "\<exists>h' s''. issue w cs s = (r, s'') \<and> s' = s''\<lparr>data := committed d b h'\<rparr> \<and>
      (r = Inr () \<longrightarrow> P h') \<and> (r \<noteq> Inr () \<longrightarrow> P h')"
    by blast
qed

lemma sim_perform: "simulates w d b n P (perform w c) [c] P (\<lambda>m. P)"
  by (rule sim_pure) simp

lemma sim_perform_at: "simulates w d b n P (perform_at w c) [c n] P (\<lambda>m. P)"
  by (rule sim_pure) (simp add: perform_at_def)

lemma sim_sync_loop:
  "simulates w d b n P (for_each ks (sync_experience w t))
     (map (\<lambda>(i, k). Run (sync_command w (ft_production w i) t k)) (enumerate n ks)) P (\<lambda>m. P)"
  by (rule sim_pure) (simp add: sync_loop_run)

lemma sim_modify:
  "simulates w d b n (\<lambda>h. h = h0) (modify_hashes b g) [] (\<lambda>h'. h' = g h0) (\<lambda>m h'. False)"
  unfolding simulates_def
proof (intro allI impI, elim conjE)
  fix s :: state and h r s'
  assume d: "data s = committed d b h" and P: "h = h0" and run: "modify_hashes b g s = (r, s')"
  from modify_hashes_run[OF d, of g] run have "r = Inr ()" "s' = s\<lparr>data := committed d b (g h)\<rparr>"
    by simp_all
  then show "\<exists>h' s''. issue w [] s = (r, s'') \<and> s' = s''\<lparr>data := committed d b h'\<rparr> \<and>
      (r = Inr () \<longrightarrow> h' = g h0) \<and> (r \<noteq> Inr () \<longrightarrow> False)"
    using P by (auto simp: ret_def)
qed

lemma sim_del_hash:
  assumes k: "k \<in> fst ` set h0"
  shows "simulates w d b n (\<lambda>h. h = h0) (del_hash b k) [] (\<lambda>h'. h' = AList.delete k h0)
     (\<lambda>m h'. False)"
  unfolding simulates_def
proof (intro allI impI, elim conjE)
  fix s :: state and h r s'
  assume d: "data s = committed d b h" and P: "h = h0" and run: "del_hash b k s = (r, s')"
  from run k P have "modify_hashes b (AList.delete k) s = (r, s')"
    by (simp add: del_hash_def bind_Inr[where m="get_hashes b" and s=s, OF get_hashes_run[OF d]])
  with modify_hashes_run[OF d, of "AList.delete k"]
  have "r = Inr ()" "s' = s\<lparr>data := committed d b (AList.delete k h)\<rparr>" by simp_all
  then show "\<exists>h' s''. issue w [] s = (r, s'') \<and> s' = s''\<lparr>data := committed d b h'\<rparr> \<and>
      (r = Inr () \<longrightarrow> h' = AList.delete k h0) \<and> (r \<noteq> Inr () \<longrightarrow> False)"
    using P by (auto simp: ret_def)
qed

lemma sim_bind:
  assumes p: "simulates w d b n P p cs Q F1" and q: "simulates w d b n' Q q ds R F2"
    and n': "n' = n + length cs"
  shows "simulates w d b n P (bind p (\<lambda>_. q)) (cs @ ds) R
     (\<lambda>m h'. if m \<le> length cs then F1 m h' else F2 (m - length cs) h')"
  unfolding simulates_def
proof (intro allI impI, elim conjE)
  fix s :: state and h r s'
  assume d: "data s = committed d b h" and n: "length (log s) = n" and P: "P h"
    and run: "bind p (\<lambda>_. q) s = (r, s')"
  obtain r1 s1 where ps: "p s = (r1, s1)" by (cases "p s")
  from p d n P ps obtain h1 s1' where i1: "issue w cs s = (r1, s1')"
    and s1: "s1 = s1'\<lparr>data := committed d b h1\<rparr>" and Q: "r1 = Inr () \<longrightarrow> Q h1"
    and F1: "r1 \<noteq> Inr () \<longrightarrow> F1 (length (log s1') - n) h1"
    unfolding simulates_def by blast
  let ?F = "\<lambda>m h'. if m \<le> length cs then F1 m h' else F2 (m - length cs) h'"
  show "\<exists>h' s''. issue w (cs @ ds) s = (r, s'') \<and> s' = s''\<lparr>data := committed d b h'\<rparr> \<and>
      (r = Inr () \<longrightarrow> R h') \<and> (r \<noteq> Inr () \<longrightarrow> ?F (length (log s'') - n) h')"
  proof (cases r1)
    case (Inl e)
    with run ps have r: "r = Inl e" "s' = s1" by (simp_all add: bind_def)
    from Inl have ne: "r1 \<noteq> Inr ()" by simp
    from issue_length(2)[OF i1 ne] n have "length (log s1') - n \<le> length cs" by arith
    moreover have "issue w (cs @ ds) s = (r, s1')"
      using i1 Inl r by (simp add: issue_append bind_def)
    ultimately show ?thesis using r s1 F1 ne by auto
  next
    case (Inr u)
    with run ps have qs: "q s1 = (r, s')" by (simp add: bind_def)
    have d1: "data s1 = committed d b h1" using s1 by simp
    from Inr have r1: "r1 = Inr ()" by simp
    from issue_length(1)[OF i1 r1] n have l1': "length (log s1') = n + length cs" by simp
    then have l1: "length (log s1) = n'" using s1 n' by simp
    from r1 Q have "Q h1" by simp
    with q d1 l1 qs obtain h2 s2' where i2: "issue w ds s1 = (r, s2')"
      and s2: "s' = s2'\<lparr>data := committed d b h2\<rparr>" and R: "r = Inr () \<longrightarrow> R h2"
      and F2: "r \<noteq> Inr () \<longrightarrow> F2 (length (log s2') - n') h2"
      unfolding simulates_def by blast
    obtain r3 s3 where i3: "issue w ds s1' = (r3, s3)" by (cases "issue w ds s1'")
    from issue_data[OF i3, of "committed d b h1"] i2 s1
    have e3: "r3 = r" "s2' = s3\<lparr>data := committed d b h1\<rparr>" by simp_all
    with s2 have s': "s' = s3\<lparr>data := committed d b h2\<rparr>" by simp
    have i: "issue w (cs @ ds) s = (r, s3)"
      using i1 Inr i3 e3(1) by (simp add: issue_append bind_def)
    have l3: "log s3 = log s2'" using e3(2) by simp
    have "r \<noteq> Inr () \<longrightarrow> ?F (length (log s3) - n) h2"
    proof
      assume ne: "r \<noteq> Inr ()"
      from issue_length(2)[OF i2 ne] l1 have "n' < length (log s2')" by simp
      then have "\<not> length (log s3) - n \<le> length cs"
        and "length (log s3) - n - length cs = length (log s2') - n'"
        using n' l3 by simp_all
      with F2 ne show "?F (length (log s3) - n) h2" by simp
    qed
    with i s' R show ?thesis by blast
  qed
qed

lemma delete_keys_image: "fst ` set (AList.delete k h) = fst ` set h - {k}"
  using delete_keys[of k h] by (metis list.set_map set_removeAll)

lemma delete_loop_sim:
  "distinct ks \<Longrightarrow> set ks \<subseteq> fst ` set h0 \<Longrightarrow>
   simulates w d b n (\<lambda>h. h = h0) (for_each ks (delete_experience w t b))
     (map (\<lambda>(i, k). Run (delete_command (ft_production w i) t k)) (enumerate n ks))
     (\<lambda>h'. h' = fold AList.delete ks h0)
     (\<lambda>m h'. h' = fold AList.delete (take m ks) h0)"
proof (induction ks arbitrary: n h0)
  case Nil
  have "simulates w d b n (\<lambda>h. h = h0) (issue w []) [] (\<lambda>h. h = h0) (\<lambda>m h. h = h0)"
    by (rule sim_pure) simp
  then show ?case by (simp add: for_each_Nil)
next
  case (Cons k ks)
  let ?h1 = "AList.delete k h0"
  let ?c = "\<lambda>i. Run (delete_command (ft_production w i) t k)"
  let ?rest = "map (\<lambda>(i, k). Run (delete_command (ft_production w i) t k)) (enumerate (Suc n) ks)"
  from Cons.prems have k: "k \<in> fst ` set h0" and dist: "distinct ks"
    and sub: "set ks \<subseteq> fst ` set ?h1"
    by (auto simp: delete_keys_image)
  have del: "simulates w d b n (\<lambda>h. h = h0) (del_hash b k) [] (\<lambda>h'. h' = ?h1) (\<lambda>m h'. False)"
    by (rule sim_del_hash[OF k])
  have run: "simulates w d b n (\<lambda>h. h = ?h1) (perform_at w ?c) [?c n] (\<lambda>h. h = ?h1) (\<lambda>m h. h = ?h1)"
    by (rule sim_perform_at)
  have rest: "simulates w d b (Suc n) (\<lambda>h. h = ?h1) (for_each ks (delete_experience w t b)) ?rest
     (\<lambda>h'. h' = fold AList.delete ks ?h1) (\<lambda>m h'. h' = fold AList.delete (take m ks) ?h1)"
    by (rule Cons.IH[OF dist sub])
  have body: "simulates w d b n (\<lambda>h. h = h0) (bind (del_hash b k) (\<lambda>_. perform_at w ?c))
      ([] @ [?c n]) (\<lambda>h. h = ?h1)
      (\<lambda>m h'. if m \<le> length ([] :: call list) then False else h' = ?h1)"
    by (rule sim_bind[OF del run]) simp
  have all: "simulates w d b n (\<lambda>h. h = h0)
      (bind (bind (del_hash b k) (\<lambda>_. perform_at w ?c)) (\<lambda>_. for_each ks (delete_experience w t b)))
      (([] @ [?c n]) @ ?rest) (\<lambda>h'. h' = fold AList.delete ks ?h1)
      (\<lambda>m h'. if m \<le> length ([] @ [?c n]) then
                 (if m \<le> length ([] :: call list) then False else h' = ?h1)
               else h' = fold AList.delete (take (m - length ([] @ [?c n])) ks) ?h1)"
    by (rule sim_bind[OF body rest]) simp
  have F: "\<And>m h'. (if m \<le> length ([] @ [?c n]) then
                 (if m \<le> length ([] :: call list) then False else h' = ?h1)
               else h' = fold AList.delete (take (m - length ([] @ [?c n])) ks) ?h1)
      \<Longrightarrow> h' = fold AList.delete (take m (k # ks)) h0"
  proof -
    fix m :: nat and h' :: fingerprints
    assume a: "if m \<le> length ([] @ [?c n]) then
                 (if m \<le> length ([] :: call list) then False else h' = ?h1)
               else h' = fold AList.delete (take (m - length ([] @ [?c n])) ks) ?h1"
    show "h' = fold AList.delete (take m (k # ks)) h0"
    proof (cases m)
      case 0
      with a show ?thesis by simp
    next
      case (Suc m')
      with a show ?thesis by (cases m') simp_all
    qed
  qed
  have "simulates w d b n (\<lambda>h. h = h0)
      (bind (bind (del_hash b k) (\<lambda>_. perform_at w ?c)) (\<lambda>_. for_each ks (delete_experience w t b)))
      (([] @ [?c n]) @ ?rest) (\<lambda>h'. h' = fold AList.delete (k # ks) h0)
      (\<lambda>m h'. h' = fold AList.delete (take m (k # ks)) h0)"
    by (rule sim_weaken[OF all]) (simp_all add: F)
  moreover have "for_each (k # ks) (delete_experience w t b) =
      bind (bind (del_hash b k) (\<lambda>_. perform_at w ?c)) (\<lambda>_. for_each ks (delete_experience w t b))"
    by (simp only: for_each_Cons delete_experience_eq[of w t b k])
  ultimately show ?case by simp
qed

lemma stages_before_commit_sim:
  assumes dist: "distinct deleted" and sub: "set deleted \<subseteq> fst ` set h1"
  shows "simulates w d (head_branch (workflow_run ev)) n (\<lambda>h. h = h1)
     (stages_before_commit w t ev new deleted synced)
     (delete_stage_calls w t ev n deleted @
      sync_stage_calls w t ev (Suc n + length deleted) synced)
     (\<lambda>h. h = new)
     (\<lambda>m h'. h' = fold AList.delete (take (m - 1) deleted) h1)"
proof -
  let ?b = "head_branch (workflow_run ev)"
  let ?h2 = "fold AList.delete deleted h1"
  let ?r1 = "report ev ''pending'' ''Deleting deleted experiences''"
  let ?r2 = "report ev ''pending'' ''Syncing experiences''"
  let ?dc = "map (\<lambda>(i, k). Run (delete_command (ft_production w i) t k)) (enumerate (Suc n) deleted)"
  let ?sc = "map (\<lambda>(i, k). Run (sync_command w (ft_production w i) t k))
               (enumerate (Suc (Suc n + length deleted)) synced)"
  let ?P1 = "\<lambda>h::fingerprints. h = h1"
  let ?P2 = "\<lambda>h::fingerprints. h = ?h2"
  have 1: "simulates w d ?b n ?P1 (perform w ?r1) [?r1] ?P1 (\<lambda>m. ?P1)"
    by (rule sim_perform)
  have 2: "simulates w d ?b (Suc n) ?P1 (for_each deleted (delete_experience w t ?b)) ?dc ?P2
      (\<lambda>m h'. h' = fold AList.delete (take m deleted) h1)"
    by (rule delete_loop_sim[OF dist sub])
  have 3: "simulates w d ?b (Suc n + length deleted) ?P2 (perform w ?r2) [?r2] ?P2 (\<lambda>m. ?P2)"
    by (rule sim_perform)
  have 4: "simulates w d ?b (Suc (Suc n + length deleted)) ?P2 (for_each synced (sync_experience w t))
      ?sc ?P2 (\<lambda>m. ?P2)"
    by (rule sim_sync_loop)
  have 5: "simulates w d ?b (Suc (Suc n + length deleted) + length synced) ?P2
      (modify_hashes ?b (\<lambda>_. new)) [] (\<lambda>h. h = new) (\<lambda>m h'. False)"
    by (rule sim_modify)
  note 45 = sim_bind[OF 4 5]
  have 345: "simulates w d ?b (Suc n + length deleted) ?P2
      (bind (perform w ?r2) (\<lambda>_. bind (for_each synced (sync_experience w t))
         (\<lambda>_. modify_hashes ?b (\<lambda>_. new))))
      ([?r2] @ ?sc @ []) (\<lambda>h. h = new) (\<lambda>m. ?P2)"
    by (rule sim_weaken[OF sim_bind[OF 3 45]]) (simp_all split: if_splits)
  have 2345: "simulates w d ?b (Suc n) ?P1
      (bind (for_each deleted (delete_experience w t ?b)) (\<lambda>_.
       bind (perform w ?r2) (\<lambda>_. bind (for_each synced (sync_experience w t))
         (\<lambda>_. modify_hashes ?b (\<lambda>_. new)))))
      (?dc @ [?r2] @ ?sc @[]) (\<lambda>h. h = new)
      (\<lambda>m h'. h' = fold AList.delete (take m deleted) h1)"
    by (rule sim_weaken[OF sim_bind[OF 2 345]]) (simp_all split: if_splits)
  have all: "simulates w d ?b n ?P1
      (bind (perform w ?r1) (\<lambda>_.
       bind (for_each deleted (delete_experience w t ?b)) (\<lambda>_.
       bind (perform w ?r2) (\<lambda>_. bind (for_each synced (sync_experience w t))
         (\<lambda>_. modify_hashes ?b (\<lambda>_. new))))))
      ([?r1] @ ?dc @ [?r2] @ ?sc @ []) (\<lambda>h. h = new)
      (\<lambda>m h'. h' = fold AList.delete (take (m - 1) deleted) h1)"
    by (rule sim_weaken[OF sim_bind[OF 1 2345]]) (auto split: if_splits)
  then show ?thesis
    by (simp add: stages_before_commit_def delete_stage_calls_def sync_stage_calls_def)
qed

lemma stages_after_commit_run:
  "stages_after_commit w t ev s = issue w (calls_after_commit w t ev (length (log s))) s"
  unfolding stages_after_commit_def
  by (simp only: issue_perform_at) (simp add: calls_after_commit_def)

lemma handle_experiences_eq:
  assumes "status (workflow_run ev) = ''completed''" and "event (workflow_run ev) = ''push''"
    and "config.targets cfg (head_branch (workflow_run ev)) = Some t"
    and "name (workflow_run ev) = ''build-experiences''"
    and "find_artifact ''experiences'' (artifacts w) = Some url"
    and "manifest w = Some new"
  shows "handle_workflow_run_completed cfg w ev =
     bind (issue w (experiences_fetch_calls w ev url)) (\<lambda>_.
     bind (compare_hashes w (head_branch (workflow_run ev)) new) (\<lambda>x.
     bind (stages_before_commit w t ev new (set_order w Deleted_hashes (fst (snd x)))
             (set_order w Synced_hashes (set_union (snd (snd (snd x))) (fst x)))) (\<lambda>_.
     bind (save_build_data w) (\<lambda>_.
       stages_after_commit w t ev))))"
  using assms
  by (simp add: handle_workflow_run_completed_def experiences_pipeline_def Let_def
      github_get_request_def read_hashes_file_def set_commit_status_def subprocess_run_def
      reload_controller_def experiences_fetch_calls_def stages_after_commit_def report_def
      stages_before_commit_def stamped_command configs_command_def temp_path_def
      bind_assoc split_def)

lemma handle_experiences_run:
  fixes s :: state
  assumes h: "status (workflow_run ev) = ''completed''" "event (workflow_run ev) = ''push''"
      "config.targets cfg (head_branch (workflow_run ev)) = Some t"
      "name (workflow_run ev) = ''build-experiences''"
      "find_artifact ''experiences'' (artifacts w) = Some url"
      "manifest w = Some new"
    and run: "handle_workflow_run_completed cfg w ev s = (r, s')"
    and l: "log s = []"
    and b: "b = head_branch (workflow_run ev)"
    and old: "old = stored_hashes (data s) b"
    and pre: "pre = calls_before_commit w t ev url new old"
    and j: "j = build_data_dict (committed (data s) b new)"
  shows "(\<exists>e s''. r = Inl e \<and> issue w pre s = (Inl e, s'') \<and>
            s' = s''\<lparr>data := (if length (log s'') \<le> 6 then data s
                              else committed (data s) b
                                     (hashes_in_memory w new old (length (log s'') - 7)))\<rparr>)
     \<or> (\<exists>s''. issue w pre s = (Inr (), s'') \<and> raises (Write_data j) (reply w (length pre))
            \<and> r = Inl (CallError (Write_data j))
            \<and> s' = s''\<lparr>data := committed (data s) b new,
                       disk := failed_write_leaves w (length pre) j (disk s),
                       log := pre @ [Write_data j]\<rparr>)
     \<or> (\<exists>s''. issue w pre s = (Inr (), s'') \<and> \<not> raises (Write_data j) (reply w (length pre))
            \<and> issue w (calls_after_commit w t ev (Suc (length pre)))
                 (s''\<lparr>data := committed (data s) b new, disk := Some (Document j),
                      log := pre @ [Write_data j]\<rparr>) = (r, s'))"
proof -
  define fetch where "fetch = experiences_fetch_calls w ev url"
  define dl where "dl = deleted_order w new old"
  define sy where "sy = synced_order w new old"
  define mid where "mid = delete_stage_calls w t ev 6 dl @ sync_stage_calls w t ev (7 + length dl) sy"
  define h1 where "h1 = insert_all new (set_order w New_hashes (added_keys new old)) old"
  define K3 where "K3 = bind (save_build_data w) (\<lambda>_. stages_after_commit w t ev)"
  define K2 where "K2 = (\<lambda>x :: string list \<times> string list \<times> string list \<times> string list.
      bind (stages_before_commit w t ev new (set_order w Deleted_hashes (fst (snd x)))
        (set_order w Synced_hashes (set_union (snd (snd (snd x))) (fst x)))) (\<lambda>_. K3))"
  define K1 where "K1 = bind (compare_hashes w b new) K2"
  have pre_eq: "pre = fetch @ mid"
    by (simp add: pre calls_before_commit_def fetch_def mid_def dl_def sy_def)
  have lf: "length fetch = 6" by (simp add: fetch_def experiences_fetch_calls_def)
  have R: "bind (issue w fetch) (\<lambda>_. K1) s = (r, s')"
    using run unfolding handle_experiences_eq[OF h] K1_def K2_def K3_def fetch_def b .
  obtain r1 s1 where i1: "issue w fetch s = (r1, s1)" by (cases "issue w fetch s")
  note f1 = issue_frame[OF i1]
  show ?thesis
  proof (cases r1)
    case (Inl e)
    with R i1 have "r = Inl e" "s' = s1" by (simp_all add: bind_def)
    moreover have "issue w pre s = (Inl e, s1)"
      using i1 Inl by (simp add: pre_eq issue_append bind_def)
    moreover from Inl issue_length(2)[OF i1] l lf have "length (log s1) \<le> 6" by simp
    moreover have "s1 = s1\<lparr>data := data s\<rparr>" using f1 by simp
    ultimately show ?thesis by auto
  next
    case (Inr u)
    with R i1 have R1: "K1 s1 = (r, s')" by (simp add: bind_def)
    from Inr issue_length(1)[OF i1] l lf have l1: "length (log s1) = 6" by simp
    have old1: "old = stored_hashes (data s1) b" using f1 by (simp add: old)
    let ?x = "(added_keys new old, deleted_keys new old, set_inter (key_set new) (key_set old),
               changed_keys w new old)"
    let ?s2 = "s1\<lparr>data := committed (data s) b h1\<rparr>"
    have c: "compare_hashes w b new s1 = (Inr ?x, ?s2)"
      using compare_hashes_run[OF old1, of w new] f1 by (simp add: h1_def)
    have R2: "K2 ?x ?s2 = (r, s')"
      using R1 c by (simp add: K1_def bind_def)
    obtain r3 s3 where st: "stages_before_commit w t ev new dl sy ?s2 = (r3, s3)"
      by (cases "stages_before_commit w t ev new dl sy ?s2")
    have R3: "bind (stages_before_commit w t ev new dl sy) (\<lambda>_. K3) ?s2 = (r, s')"
      using R2 by (simp add: K2_def sy_def dl_def deleted_order_def synced_order_def)
    have d2: "data ?s2 = committed (data s) b h1" by simp
    have l2: "length (log ?s2) = 6" using l1 by simp
    have "set dl \<subseteq> fst ` set old" by (auto simp: dl_def)
    with insert_all_keys[of old new "set_order w New_hashes (added_keys new old)"]
    have P: "set dl \<subseteq> fst ` set h1" unfolding h1_def by blast
    have dist: "distinct dl" by (simp add: dl_def)
    have sim: "simulates w (data s) b 6 (\<lambda>h. h = h1) (stages_before_commit w t ev new dl sy) mid
        (\<lambda>h. h = new) (\<lambda>m h'. h' = fold AList.delete (take (m - 1) dl) h1)"
      using stages_before_commit_sim[OF dist P, of w "data s" ev 6 t new sy]
      by (simp add: mid_def b)
    from simulatesD[OF sim d2 l2 refl st]
    obtain h3 s3' where i3: "issue w mid ?s2 = (r3, s3')"
      and s3: "s3 = s3'\<lparr>data := committed (data s) b h3\<rparr>" and h3: "r3 = Inr () \<longrightarrow> h3 = new"
      and f3: "r3 \<noteq> Inr () \<longrightarrow> h3 = fold AList.delete (take (length (log s3') - 6 - 1) dl) h1"
      by blast
    obtain r4 s4 where i4: "issue w mid s1 = (r4, s4)" by (cases "issue w mid s1")
    from issue_data[OF i4, of "committed (data s) b h1"] i3
    have e4: "r4 = r3" "s3' = s4\<lparr>data := committed (data s) b h1\<rparr>" by simp_all
    with s3 have s3': "s3 = s4\<lparr>data := committed (data s) b h3\<rparr>" by simp
    have ipre: "issue w pre s = (r3, s4)"
      using i1 Inr i4 e4(1) by (simp add: pre_eq issue_append bind_def)
    have l4: "log s4 = log s3'" using e4(2) by simp
    show ?thesis
    proof (cases r3)
      case (Inl e)
      with R3 st have re: "r = Inl e" "s' = s3" by (simp_all add: bind_def)
      from Inl have ne: "r3 \<noteq> Inr ()" by simp
      from issue_length(2)[OF i4[unfolded e4(1)] ne] l1 have "6 < length (log s4)" by simp
      moreover from f3 ne l4 have "h3 = hashes_in_memory w new old (length (log s4) - 7)"
        by (simp add: hashes_in_memory_def dl_def h1_def)
      ultimately show ?thesis using re ipre Inl s3' by auto
    next
      case (Inr u3)
      with h3 s3' have s3n: "s3 = s4\<lparr>data := committed (data s) b new\<rparr>" by simp
      from R3 st Inr have R4: "K3 s3 = (r, s')" by (simp add: bind_def)
      have ip: "issue w pre s = (Inr (), s4)" using ipre Inr by simp
      from issue_cases[OF ip] l have lp: "log s4 = pre" by simp
      have dj: "build_data_dict (data s3) = j" using s3n by (simp add: j)
      have l3: "log s3 = pre" using s3n lp by simp
      have k3: "disk s3 = disk s" using s3n issue_frame[OF ip] by simp
      show ?thesis
      proof (cases "raises (Write_data j) (reply w (length pre))")
        case True
        then have "save_build_data w s3 = (Inl (CallError (Write_data j)),
            s3\<lparr>disk := failed_write_leaves w (length pre) j (disk s),
               log := pre @ [Write_data j]\<rparr>)"
          by (simp add: save_build_data_run dj l3 k3)
        with R4 have "r = Inl (CallError (Write_data j))"
          "s' = s3\<lparr>disk := failed_write_leaves w (length pre) j (disk s),
                  log := pre @ [Write_data j]\<rparr>"
          by (simp_all add: K3_def bind_def)
        moreover have "s3\<lparr>disk := failed_write_leaves w (length pre) j (disk s),
                  log := pre @ [Write_data j]\<rparr>
            = s4\<lparr>data := committed (data s) b new,
                 disk := failed_write_leaves w (length pre) j (disk s),
                 log := pre @ [Write_data j]\<rparr>"
          using s3n by (cases s4) simp
        ultimately show ?thesis using ip True by simp
      next
        case False
        let ?s5 = "s3\<lparr>disk := Some (Document j), log := pre @ [Write_data j]\<rparr>"
        from False have "save_build_data w s3 = (Inr (), ?s5)"
          by (simp add: save_build_data_run dj l3)
        with R4 have "stages_after_commit w t ev ?s5 = (r, s')"
          by (simp add: K3_def bind_def)
        then have "issue w (calls_after_commit w t ev (Suc (length pre))) ?s5 = (r, s')"
          by (simp add: stages_after_commit_run)
        moreover have "?s5
            = s4\<lparr>data := committed (data s) b new, disk := Some (Document j),
                 log := pre @ [Write_data j]\<rparr>"
          using s3n by (cases s4) simp
        ultimately show ?thesis using ip False by simp
      qed
    qed
  qed
qed

lemma experiences_calls_split:
  "experiences_calls w t ev url new d =
     calls_before_commit w t ev url new (stored_hashes d (head_branch (workflow_run ev))) @
     Write_data (build_data_dict (committed d (head_branch (workflow_run ev)) new)) #
     calls_after_commit w t ev
       (Suc (length (calls_before_commit w t ev url new
                       (stored_hashes d (head_branch (workflow_run ev))))))"
  by (simp add: experiences_calls_def Let_def)

lemma handle_experiences_issue:
  fixes s :: state
  assumes h: "status (workflow_run ev) = ''completed''" "event (workflow_run ev) = ''push''"
      "config.targets cfg (head_branch (workflow_run ev)) = Some t"
      "name (workflow_run ev) = ''build-experiences''"
      "find_artifact ''experiences'' (artifacts w) = Some url"
      "manifest w = Some new"
    and run: "handle_workflow_run_completed cfg w ev s = (r, s')"
    and l: "log s = []"
  shows "\<exists>s''. issue w (experiences_calls w t ev url new (data s)) s = (r, s'') \<and> log s'' = log s'"
proof -
  define b where "b = head_branch (workflow_run ev)"
  define old where "old = stored_hashes (data s) b"
  define pre where "pre = calls_before_commit w t ev url new old"
  define j where "j = build_data_dict (committed (data s) b new)"
  define post where "post = calls_after_commit w t ev (Suc (length pre))"
  have full: "experiences_calls w t ev url new (data s) = pre @ Write_data j # post"
    by (simp add: experiences_calls_split pre_def j_def post_def b_def old_def)
  from handle_experiences_run[OF h run l b_def old_def pre_def j_def]
  show ?thesis
  proof (elim disjE exE conjE)
    fix e s''
    assume "r = Inl e" "issue w pre s = (Inl e, s'')"
      "s' = s''\<lparr>data := (if length (log s'') \<le> 6 then data s
                              else committed (data s) b
                                     (hashes_in_memory w new old (length (log s'') - 7)))\<rparr>"
    then show ?thesis by (simp add: full issue_append bind_def)
  next
    fix s''
    assume p: "issue w pre s = (Inr (), s'')" and "raises (Write_data j) (reply w (length pre))"
      "r = Inl (CallError (Write_data j))"
      "s' = s''\<lparr>data := committed (data s) b new,
                       disk := failed_write_leaves w (length pre) j (disk s),
                       log := pre @ [Write_data j]\<rparr>"
    moreover from issue_cases[OF p] l have "log s'' = pre" by simp
    ultimately show ?thesis by (simp add: full issue_append bind_def perform_def)
  next
    fix s''
    assume p: "issue w pre s = (Inr (), s'')" and nr: "\<not> raises (Write_data j) (reply w (length pre))"
      and i: "issue w (calls_after_commit w t ev (Suc (length pre)))
         (s''\<lparr>data := committed (data s) b new, disk := Some (Document j),
              log := pre @ [Write_data j]\<rparr>) = (r, s')"
    from issue_cases[OF p] l have lp: "log s'' = pre" by simp
    obtain r3 s3 where i3: "issue w post (s''\<lparr>log := pre @ [Write_data j]\<rparr>) = (r3, s3)"
      by (cases "issue w post (s''\<lparr>log := pre @ [Write_data j]\<rparr>)")
    have "(s''\<lparr>log := pre @ [Write_data j]\<rparr>)\<lparr>data := committed (data s) b new, disk := Some (Document j)\<rparr>
        = s''\<lparr>data := committed (data s) b new, disk := Some (Document j), log := pre @ [Write_data j]\<rparr>"
      by (cases s'') simp
    with issue_state[OF i3, where d="committed (data s) b new" and f="Some (Document j)"] i
    have "r3 = r" "log s3 = log s'" by (auto simp: post_def)
    with p nr i3 lp show ?thesis
      by (simp add: full issue_append bind_def perform_def)
  qed
qed

lemma handle_experiences_store:
  fixes s :: state
  assumes h: "status (workflow_run ev) = ''completed''" "event (workflow_run ev) = ''push''"
      "config.targets cfg (head_branch (workflow_run ev)) = Some t"
      "name (workflow_run ev) = ''build-experiences''"
      "find_artifact ''experiences'' (artifacts w) = Some url"
      "manifest w = Some new"
    and run: "handle_workflow_run_completed cfg w ev s = (r, s')"
    and l: "log s = []"
    and b: "b = head_branch (workflow_run ev)"
    and old: "old = stored_hashes (data s) b"
    and pre: "pre = calls_before_commit w t ev url new old"
    and j: "j = build_data_dict (committed (data s) b new)"
  shows "(\<exists>n. r \<noteq> Inr () \<and> 0 < n \<and> n \<le> length pre \<and> log s' = take n pre \<and> disk s' = disk s \<and>
            data s' = (if n \<le> 6 then data s
                       else committed (data s) b (hashes_in_memory w new old (n - 7))))
       \<or> (log s' = pre @ [Write_data j] \<and> raises (Write_data j) (reply w (length pre)) \<and>
          r = Inl (CallError (Write_data j)) \<and> data s' = committed (data s) b new \<and>
          disk s' = failed_write_leaves w (length pre) j (disk s))
       \<or> ((\<exists>n. log s' = pre @ [Write_data j] @
                         take n (calls_after_commit w t ev (Suc (length pre)))) \<and>
          \<not> raises (Write_data j) (reply w (length pre)) \<and>
          data s' = committed (data s) b new \<and> disk s' = Some (Document j))"
proof -
  from handle_experiences_run[OF h run l b old pre j]
  show ?thesis
  proof (elim disjE exE conjE)
    fix e s''
    assume a: "r = Inl e" "issue w pre s = (Inl e, s'')"
      "s' = s''\<lparr>data := (if length (log s'') \<le> 6 then data s
                              else committed (data s) b
                                     (hashes_in_memory w new old (length (log s'') - 7)))\<rparr>"
    from issue_cases[OF a(2)] l obtain n where n: "n < length pre" "log s'' = take (Suc n) pre"
      by auto
    then have len: "length (log s'') = Suc n" by simp
    have "disk s' = disk s" using issue_frame[OF a(2)] a(3) by simp
    with a n len have "r \<noteq> Inr () \<and> 0 < Suc n \<and> Suc n \<le> length pre \<and> log s' = take (Suc n) pre \<and>
        disk s' = disk s \<and>
        data s' = (if Suc n \<le> 6 then data s
                   else committed (data s) b (hashes_in_memory w new old (Suc n - 7)))"
      by simp
    then show ?thesis by blast
  next
    fix s''
    assume a: "issue w pre s = (Inr (), s'')" "raises (Write_data j) (reply w (length pre))"
      "r = Inl (CallError (Write_data j))"
      "s' = s''\<lparr>data := committed (data s) b new,
                 disk := failed_write_leaves w (length pre) j (disk s),
                 log := pre @ [Write_data j]\<rparr>"
    then show ?thesis by simp
  next
    fix s''
    assume a: "issue w pre s = (Inr (), s'')" "\<not> raises (Write_data j) (reply w (length pre))"
      and i: "issue w (calls_after_commit w t ev (Suc (length pre)))
         (s''\<lparr>data := committed (data s) b new, disk := Some (Document j),
              log := pre @ [Write_data j]\<rparr>) = (r, s')"
    from issue_frame[OF i] have "disk s' = Some (Document j)" "data s' = committed (data s) b new"
      by simp_all
    moreover from issue_prefix[OF i] obtain n where
      "log s' = (pre @ [Write_data j]) @ take n (calls_after_commit w t ev (Suc (length pre)))"
      by auto
    then have "\<exists>n. log s' = pre @ [Write_data j] @
        take n (calls_after_commit w t ev (Suc (length pre)))"
      by auto
    ultimately show ?thesis using a(2) by simp
  qed
qed

section \<open>Raising calls and status reports\<close>

lemma none_raises_snoc:
  "none_raises w (l @ [c]) \<longleftrightarrow> none_raises w l \<and> \<not> raises c (reply w (length l))"
  by (simp add: none_raises_def enumerate_append_eq)

lemma none_raises_nth:
  "none_raises w l \<longleftrightarrow> (\<forall>i < length l. \<not> raises (l ! i) (reply w i))"
  by (simp add: none_raises_def list_all_length nth_enumerate_eq)

lemma completing_none_raises:
  assumes "\<forall>i < length cs. reply w i \<noteq> Fault \<and>
      (\<not> is_run (cs ! i) \<longrightarrow> \<not> raises (cs ! i) (reply w i))"
  shows "none_raises w cs"
  unfolding none_raises_nth
proof (intro allI impI)
  fix i assume i: "i < length cs"
  with assms have f: "reply w i \<noteq> Fault"
    and o: "\<not> is_run (cs ! i) \<longrightarrow> \<not> raises (cs ! i) (reply w i)" by simp_all
  from f obtain n where n: "reply w i = Done n" by (cases "reply w i") simp_all
  show "\<not> raises (cs ! i) (reply w i)"
  proof (cases "cs ! i")
    case (Run argv)
    with n show ?thesis by simp
  qed (use o in simp_all)
qed

lemma low_status_completes: "n < 400 \<Longrightarrow> \<not> raises c (Done n)"
  by (cases c) simp_all

lemma law_stops:
  "law w (\<lambda>c. True) (none_raises w)
     (\<lambda>e l. none_raises w l \<or>
        (l \<noteq> [] \<and> none_raises w (butlast l) \<and> raises (last l) (reply w (length l - 1)) \<and>
         e = CallError (last l)))"
  by (simp add: law_def none_raises_snoc)

lemma handle_stops:
  fixes s :: state
  assumes run: "handle_workflow_run_completed cfg w ev s = (r, s')" and l: "log s = []"
    and i: "i < length (log s')" and ri: "raises (log s' ! i) (reply w i)"
  shows "Suc i = length (log s') \<and> r = Inl (CallError (log s' ! i))"
proof -
  have N: "none_raises w (log s)" by (simp add: l none_raises_def)
  have "obeys (none_raises w)
     (\<lambda>e l. none_raises w l \<or>
        (l \<noteq> [] \<and> none_raises w (butlast l) \<and> raises (last l) (reply w (length l - 1)) \<and>
         e = CallError (last l))) (handle_workflow_run_completed cfg w ev)"
    by (rule handle_obeys[OF law_stops]) simp
  with N run
  have post: "case r of Inl e \<Rightarrow> none_raises w (log s') \<or>
        (log s' \<noteq> [] \<and> none_raises w (butlast (log s')) \<and>
         raises (last (log s')) (reply w (length (log s') - 1)) \<and> e = CallError (last (log s')))
      | Inr x \<Rightarrow> none_raises w (log s')"
    unfolding obeys_def by fastforce
  have not_all: "\<not> none_raises w (log s')"
    using i ri by (auto simp: none_raises_nth)
  with post obtain e where e: "r = Inl e" "log s' \<noteq> []" "none_raises w (butlast (log s'))"
     "e = CallError (last (log s'))"
    by (cases r) auto
  have "\<not> i < length (butlast (log s'))"
  proof
    assume "i < length (butlast (log s'))"
    with e(3) have "\<not> raises (butlast (log s') ! i) (reply w i)" by (simp add: none_raises_nth)
    with \<open>i < length (butlast (log s'))\<close> ri show False by (simp add: nth_butlast)
  qed
  with i have si: "Suc i = length (log s')" by simp
  then have "last (log s') = log s' ! i"
    using e(2) by (metis diff_Suc_1 last_conv_nth)
  with e si show ?thesis by simp
qed

lemma law_no_report:
  "law w (\<lambda>c. \<not> is_report st c) (\<lambda>l. filter (is_report st) l = []) (\<lambda>e l. filter (is_report st) l = [])"
  by (simp add: law_def)

lemma handle_no_failure_report:
  fixes s :: state
  assumes run: "handle_workflow_run_completed cfg w ev s = (r, s')" and l: "log s = []"
  shows "filter (is_report ''failure'') (log s') = []"
proof -
  have "obeys (\<lambda>l. filter (is_report ''failure'') l = []) (\<lambda>e l. filter (is_report ''failure'') l = [])
      (handle_workflow_run_completed cfg w ev)"
    by (rule handle_obeys[OF law_no_report]) simp
  then have "case handle_workflow_run_completed cfg w ev s of
      (Inl e, s') \<Rightarrow> filter (is_report ''failure'') (log s') = []
    | (Inr x, s') \<Rightarrow> filter (is_report ''failure'') (log s') = []"
    using l by (simp add: obeys_def)
  with run show ?thesis by (cases r) simp_all
qed

lemma law_no_success:
  "law w (\<lambda>c. \<not> is_report ''success'' c) (\<lambda>l. filter (is_report ''success'') l = []) (\<lambda>e l. True)"
  by (simp add: law_def)

lemma handle_success_report:
  fixes s :: state
  assumes h: "status (workflow_run ev) = ''completed''" "event (workflow_run ev) = ''push''"
      "config.targets cfg (head_branch (workflow_run ev)) = Some t"
    and run: "handle_workflow_run_completed cfg w ev s = (Inr (), s')" and l: "log s = []"
  shows "\<exists>l. log s' = l @ [report ev ''success'' (''Successful in '' @ str_int (elapsed w) @ ''s'')]
            \<and> filter (is_report ''success'') l = []"
proof -
  let ?fin = "set_commit_status w (full_name (repository ev)) (head_sha (workflow_run ev))
                ''success'' (name (workflow_run ev)) (''Successful in '' @ str_int (elapsed w) @ ''s'')"
  define p where "p = (if name (workflow_run ev) = ''build-controls'' then controls_pipeline w t ev
                    else if name (workflow_run ev) = ''build-experiences''
                    then experiences_pipeline w t ev else ret ())"
  have known: "name (workflow_run ev) \<in> set [''build-controls'', ''build-experiences'']"
  proof (rule ccontr)
    assume "\<not> ?thesis"
    with h have "handle_workflow_run_completed cfg w ev s = (Inl (HTTPException 400 ''Unknown event name''), s)"
      by (simp add: handle_workflow_run_completed_def raise_def)
    with run show False by simp
  qed
  with h have eq: "handle_workflow_run_completed cfg w ev = bind p (\<lambda>_. ?fin)"
    by (auto simp: handle_workflow_run_completed_def p_def Let_def)
  have ob: "obeys (\<lambda>l. filter (is_report ''success'') l = []) (\<lambda>e l. True) p"
    unfolding p_def
    using controls_obeys[OF law_no_success, of w t ev] experiences_obeys[OF law_no_success, of w t ev]
    by (simp add: obeys_ret)
  obtain r1 s1 where p1: "p s = (r1, s1)" by (cases "p s")
  with run eq have r1: "r1 = Inr ()" and fin: "?fin s1 = (Inr (), s')"
    by (auto simp: bind_def split: sum.splits)
  have "filter (is_report ''success'') (log s1) = []"
    by (rule obeys_Inr[OF ob _ p1[unfolded r1]]) (simp add: l)
  moreover from fin have "log s' = log s1 @ [report ev ''success'' (''Successful in '' @ str_int (elapsed w) @ ''s'')]"
    by (auto simp: set_commit_status_def perform_def report_def split: if_splits)
  ultimately show ?thesis by blast
qed

section \<open>The controls pipeline\<close>

lemma handle_controls_eq:
  assumes "status (workflow_run ev) = ''completed''" and "event (workflow_run ev) = ''push''"
    and "config.targets cfg (head_branch (workflow_run ev)) = Some t"
    and "name (workflow_run ev) = ''build-controls''"
    and "find_artifact ''web-build'' (artifacts w) = Some url"
  shows "handle_workflow_run_completed cfg w ev =
     bind (issue w (take 6 (controls_calls w t ev url))) (\<lambda>_.
     bind (perform_at w (\<lambda>n. Run [''rsync'', ''-e'',
             ''ssh -o \"SetEnv=FT_PRODUCTION='' @ ft_production w n @ ''\"'',
             ''-a'', ''--delete'', temp_dir w @ ''/build/'', web_path t])) (\<lambda>_.
       issue w (drop 7 (controls_calls w t ev url))))"
  using assms
  by (simp add: handle_workflow_run_completed_def controls_pipeline_def Let_def
      github_get_request_def set_commit_status_def subprocess_run_def
      reload_controller_def controls_calls_def report_def stamped_command temp_path_def
      bind_assoc)

lemma handle_controls_run:
  fixes s :: state
  assumes "status (workflow_run ev) = ''completed''" and "event (workflow_run ev) = ''push''"
    and "config.targets cfg (head_branch (workflow_run ev)) = Some t"
    and "name (workflow_run ev) = ''build-controls''"
    and "find_artifact ''web-build'' (artifacts w) = Some url"
    and "log s = []"
  shows "handle_workflow_run_completed cfg w ev s = issue w (controls_calls w t ev url) s"
  unfolding handle_controls_eq[OF assms(1-5)]
  by (simp only: issue_perform_at) (simp add: controls_calls_def assms(6) eval_nat_numeral)

lemma handle_controls_missing:
  assumes "status (workflow_run ev) = ''completed''" and "event (workflow_run ev) = ''push''"
    and "config.targets cfg (head_branch (workflow_run ev)) = Some t"
    and "name (workflow_run ev) = ''build-controls''"
    and "find_artifact ''web-build'' (artifacts w) = None"
  shows "handle_workflow_run_completed cfg w ev =
     bind (perform w (Get (artifacts_url (workflow_run ev))))
       (\<lambda>_. raise (RuntimeError ''Missing web build''))"
  using assms
  by (simp add: handle_workflow_run_completed_def controls_pipeline_def Let_def
      github_get_request_def bind_assoc)

lemma issue_run_log:
  fixes s :: state
  assumes run: "issue w cs s = (r, s')" and l: "log s = []"
  shows "prefix (log s') cs \<and> (r = Inr () \<longrightarrow> log s' = cs) \<and> (none_raises w cs \<longrightarrow> r = Inr ())"
proof -
  from issue_prefix[OF run] l obtain n where n: "log s' = take n cs" "r = Inr () \<longrightarrow> n = length cs"
    by auto
  have "prefix (take n cs) cs" by (rule take_is_prefix)
  moreover have "none_raises w cs \<Longrightarrow> r = Inr ()"
    using issue_none_raises[of w s cs] run l by (simp add: none_raises_def)
  ultimately show ?thesis using n by auto
qed

section \<open>Calls of the stages\<close>

lemma hd_delete_command:
  "hd (delete_command stamp t k) = ''rm'' \<or> hd (delete_command stamp t k) = ''ssh''"
  by (simp add: delete_command_def split: option.splits)

lemma delete_not_sync: "delete_command stamp t k \<noteq> sync_command w stamp' t k'"
  using hd_delete_command[of stamp t k] by (auto simp: sync_command_def)

lemma delete_not_configs: "delete_command stamp t k \<noteq> configs_command w stamp' t"
  using hd_delete_command[of stamp t k] by (auto simp: configs_command_def)

lemma delete_not_fetch:
  "delete_command stamp t k \<noteq> ''curl'' # x" "delete_command stamp t k \<noteq> ''unzip'' # y"
  using hd_delete_command[of stamp t k] by auto

lemma delete_command_explicit:
  "delete_command stamp t k =
     (if CHR '':'' \<in> set (controller_path t) \<and>
         takeWhile (\<lambda>c. c \<noteq> CHR '':'') (controller_path t) \<noteq> []
      then [''ssh'', ''-o'', ''SetEnv=FT_PRODUCTION='' @ stamp,
            takeWhile (\<lambda>c. c \<noteq> CHR '':'') (controller_path t),
            ''rm -rf '' @
            (if CHR '':'' \<in> set (controller_path t)
             then takeWhile (\<lambda>c. c \<noteq> CHR '':'')
                    (tl (dropWhile (\<lambda>c. c \<noteq> CHR '':'') (controller_path t)))
             else controller_path t) @ ''/experiences/'' @ k]
      else [''rm'', ''-rf'',
            (if CHR '':'' \<in> set (controller_path t)
             then takeWhile (\<lambda>c. c \<noteq> CHR '':'')
                    (tl (dropWhile (\<lambda>c. c \<noteq> CHR '':'') (controller_path t)))
             else controller_path t) @ ''/experiences/'' @ k])"
  by (simp add: delete_command_def controller_host_def controller_fs_path_def)

lemma delete_stage_disjoint:
  "c \<in> set (delete_stage_calls w t ev n dl) \<Longrightarrow>
   c \<notin> set (experiences_fetch_calls w ev url) \<and>
   c \<notin> set (sync_stage_calls w t ev m sy @ Write_data j # calls_after_commit w t ev m')"
  by (auto simp: delete_stage_calls_def sync_stage_calls_def calls_after_commit_def report_def
      experiences_fetch_calls_def delete_not_sync delete_not_configs delete_not_fetch)

lemma sync_not_fetch:
  "sync_command w stamp t k \<noteq> ''curl'' # x" "sync_command w stamp t k \<noteq> ''unzip'' # y"
  by (simp_all add: sync_command_def)

lemma no_push_before_sync:
  "Run (sync_command w stamp t k) \<notin> set (experiences_fetch_calls w ev url @ delete_stage_calls w t ev n dl)"
  "Reload u \<notin> set (experiences_fetch_calls w ev url @ delete_stage_calls w t ev n dl)"
  by (auto simp: experiences_fetch_calls_def delete_stage_calls_def report_def
      delete_not_sync[symmetric] sync_not_fetch)

lemma no_write_before_commit:
  "filter is_write (calls_before_commit w t ev url new old) = []"
  "filter is_write (calls_after_commit w t ev n) = []"
  by (auto simp: calls_before_commit_def experiences_fetch_calls_def delete_stage_calls_def
      sync_stage_calls_def calls_after_commit_def report_def filter_empty_conv)

lemma filter_take_empty: "filter P xs = [] \<Longrightarrow> filter P (take n xs) = []"
  by (metis append_take_drop_id filter_append append_is_Nil_conv)

lemma filter_prefix_length: "prefix xs ys \<Longrightarrow> length (filter P xs) \<le> length (filter P ys)"
  by (auto simp: prefix_def)

lemma law_no_write:
  "law w (\<lambda>c. \<not> is_write c) (\<lambda>l. filter is_write l = []) (\<lambda>e l. filter is_write l = [])"
  by (simp add: law_def)

lemma experiences_incomplete:
  assumes "find_artifact ''experiences'' (artifacts w) = None \<or> manifest w = None"
  shows "\<exists>cs e. filter is_write cs = [] \<and> experiences_pipeline w t ev = bind (issue w cs) (\<lambda>_. raise e)"
proof (cases "find_artifact ''experiences'' (artifacts w)")
  case None
  then have "experiences_pipeline w t ev =
      bind (issue w [Get (artifacts_url (workflow_run ev))]) (\<lambda>_. raise (RuntimeError ''Missing experiences build''))"
    by (simp add: experiences_pipeline_def Let_def github_get_request_def bind_assoc)
  moreover have "filter is_write [Get (artifacts_url (workflow_run ev))] = []" by simp
  ultimately show ?thesis by blast
next
  case (Some url)
  with assms have m: "read_hashes_file w = raise ManifestError"
    by (simp add: read_hashes_file_def)
  have "experiences_pipeline w t ev =
      bind (issue w (experiences_fetch_calls w ev url)) (\<lambda>_. raise ManifestError)"
    using Some
    by (simp add: experiences_pipeline_def Let_def github_get_request_def bind_assoc m
        set_commit_status_def subprocess_run_def experiences_fetch_calls_def report_def
        temp_path_def)
  moreover have "filter is_write (experiences_fetch_calls w ev url) = []"
    by (simp add: experiences_fetch_calls_def report_def)
  ultimately show ?thesis by blast
qed

lemma obeys_issue: "law w A N X \<Longrightarrow> (\<And>c. c \<in> set cs \<Longrightarrow> A c) \<Longrightarrow> obeys N X (issue w cs)"
  by (induction cs) (auto intro!: obeys_bind obeys_ret obeys_perform)

lemma handle_no_write_obeys:
  assumes "name (workflow_run ev) \<noteq> ''build-experiences'' \<or>
      find_artifact ''experiences'' (artifacts w) = None \<or> manifest w = None"
  shows "obeys (\<lambda>l. filter is_write l = []) (\<lambda>e l. filter is_write l = [])
     (handle_workflow_run_completed cfg w ev)"
proof -
  note L = law_no_write[of w]
  have fin: "\<And>r sh st cx d. obeys (\<lambda>l. filter is_write l = []) (\<lambda>e l. filter is_write l = [])
      (set_commit_status w r sh st cx d)"
    unfolding set_commit_status_def by (rule obeys_perform[OF L]) simp
  have ctl: "\<And>t. obeys (\<lambda>l. filter is_write l = []) (\<lambda>e l. filter is_write l = [])
      (controls_pipeline w t ev)"
    by (rule controls_obeys[OF L]) simp
  have ex: "name (workflow_run ev) = ''build-experiences'' \<Longrightarrow>
      obeys (\<lambda>l. filter is_write l = []) (\<lambda>e l. filter is_write l = []) (experiences_pipeline w t ev)" for t
  proof -
    assume "name (workflow_run ev) = ''build-experiences''"
    with assms have "find_artifact ''experiences'' (artifacts w) = None \<or> manifest w = None" by simp
    from experiences_incomplete[OF this, of t ev] obtain cs e where
      cs: "filter is_write cs = []" and eq: "experiences_pipeline w t ev = bind (issue w cs) (\<lambda>_. raise e)"
      by blast
    from cs have "\<And>c. c \<in> set cs \<Longrightarrow> \<not> is_write c" by (simp add: filter_empty_conv)
    then show ?thesis
      unfolding eq by (intro obeys_bind obeys_issue[OF L] obeys_raise[OF L]) simp_all
  qed
  show ?thesis
    unfolding handle_workflow_run_completed_def Let_def
    by (auto intro!: obeys_ret obeys_raise[OF L] obeys_bind ctl ex fin split: option.splits)
qed

lemma kept_disk_quiet:
  fixes s :: state
  assumes "handle_workflow_run_completed cfg w ev s = (r, s')"
    and "name (workflow_run ev) \<noteq> ''build-experiences'' \<or>
      find_artifact ''experiences'' (artifacts w) = None \<or> manifest w = None"
  shows "disk s' = disk s"
proof -
  have P: "kept disk (perform w c)" for c by (simp add: kept_def perform_def)
  have I: "kept disk (issue w cs)" for cs
    by (induction cs) (auto intro!: kept_bind kept_ret P)
  have S: "kept disk (set_commit_status w a b c d e)" for a b c d e
    by (simp add: set_commit_status_def P)
  have C: "kept disk (controls_pipeline w t ev)" for t
    unfolding controls_pipeline_def Let_def github_get_request_def set_commit_status_def
      subprocess_run_def reload_controller_def
    by (auto intro!: kept_bind kept_block kept_ret kept_raise P kept_rsync_ssh_production_command
        split: option.splits)
  have E: "name (workflow_run ev) = ''build-experiences'' \<Longrightarrow> kept disk (experiences_pipeline w t ev)" for t
  proof -
    assume "name (workflow_run ev) = ''build-experiences''"
    with assms(2) have "find_artifact ''experiences'' (artifacts w) = None \<or> manifest w = None" by simp
    from experiences_incomplete[OF this, of t ev] obtain cs e where
      eq: "experiences_pipeline w t ev = bind (issue w cs) (\<lambda>_. raise e)" by blast
    show ?thesis unfolding eq by (intro kept_bind I kept_raise)
  qed
  have "kept disk (handle_workflow_run_completed cfg w ev)"
    unfolding handle_workflow_run_completed_def Let_def
    by (auto intro!: kept_ret kept_raise kept_bind S C E split: option.splits)
  with assms(1) show ?thesis by (simp add: kept_def) (metis snd_conv)
qed

lemma join_path_plain:
  assumes "k \<noteq> []" and "k \<noteq> ''.''" and "CHR ''/'' \<notin> set k"
  shows "join_path base k = base @ ''/'' @ k"
proof -
  have "CHR ''/'' \<notin> set k \<Longrightarrow> split_slash k = [k]"
    by (induction k) auto
  with assms have "path_parts k = [k]" by (simp add: path_parts_def)
  moreover from assms have "hd k \<noteq> CHR ''/''" by (cases k) auto
  ultimately show ?thesis by (simp add: join_path_def)
qed

lemma map_of_fold_delete:
  "map_of (fold AList.delete ks h) k = (if k \<in> set ks then None else map_of h k)"
  by (induction ks arbitrary: h) (simp_all add: delete_conv')

lemma map_of_insert_all:
  "map_of (insert_all new ks h) k =
     (if k \<in> set ks then Some (the (map_of new k)) else map_of h k)"
  unfolding insert_all_def
  by (induction ks arbitrary: h) (auto simp: update_conv')

lemma map_of_hashes_in_memory:
  "map_of (hashes_in_memory w new old m) k =
     (if k \<in> set (take m (deleted_order w new old)) then None
      else if k \<in> fst ` set new - fst ` set old then map_of new k
      else map_of old k)"
proof -
  have "k \<in> fst ` set new \<Longrightarrow> Some (the (map_of new k)) = map_of new k"
    by (metis domD dom_map_of_conv_image_fst option.sel)
  then show ?thesis
    by (auto simp: hashes_in_memory_def map_of_fold_delete map_of_insert_all)
qed

section \<open>The example runs\<close>

lemma example_hyps:
  "status (workflow_run (example_run b n)) = ''completed''"
  "event (workflow_run (example_run b n)) = ''push''"
  "config.targets example_config (head_branch (workflow_run (example_run ''main'' n))) =
     Some example_target"
  "name (workflow_run (example_run b n)) = n"
  "log example_start = []"
  by (simp_all add: example_run_def example_config_def example_start_def start_def)

lemma example_world_hyps:
  "find_artifact ''experiences'' (artifacts example_world) = Some ''https://gh/zip/1''"
  "find_artifact ''web-build'' (artifacts example_world) = Some ''https://gh/zip/2''"
  "manifest example_world = Some example_manifest"
  by (simp_all add: example_world_def example_manifest_def)

lemma delete_raises_hyps:
  "find_artifact ''experiences'' (artifacts delete_raises) = Some ''https://gh/zip/1''"
  "manifest delete_raises = Some example_manifest"
  by (simp_all add: delete_raises_def example_world_def example_manifest_def)

lemma delete_exits_255_hyps:
  "find_artifact ''experiences'' (artifacts delete_exits_255) = Some ''https://gh/zip/1''"
  "manifest delete_exits_255 = Some example_manifest"
  by (simp_all add: delete_exits_255_def example_world_def example_manifest_def)

lemma reversed_world_hyps:
  "find_artifact ''experiences'' (artifacts reversed_world) = Some ''https://gh/zip/1''"
  "manifest reversed_world = Some [(''c'', ''3''), (''d'', ''4'')]"
  by (simp_all add: reversed_world_def example_world_def)

lemma example_stored:
  "data example_start = example_data"
  "stored_hashes example_data ''main'' = [(''a'', ''1''), (''b'', ''2'')]"
  "head_branch (workflow_run (example_run ''main'' n)) = ''main''"
  by (simp_all add: example_start_def start_def stored_hashes_def example_data_def example_run_def)

section \<open>The claims\<close>

text \<open>
  C1, as amended.  The file at \<open>DATA_PATH\<close> is written at most once in a run, by the
  experiences pipeline only, after all calls of the fetch, delete and sync stages and
  before the auxiliary-configuration sync and the reload request.  For every run: the log
  holds at most one write; when it holds none (the run is a controls run, or it was
  ignored, or it ended before the write), the file is as it was before the run; when it
  holds one, the run is an experiences run whose log consists of all calls of
  \<open>calls_before_commit\<close>, the write of the stored data with the manifest's map for
  the branch, and a first part of \<open>calls_after_commit\<close> (the configuration sync, the
  reload request and their reports), and then: if the write completed, the file holds exactly this
  document, also when a later call raises; if the write raised, the file is as it was
  when nothing had been created or emptied yet, is empty or cut short when the dump did
  not finish, and holds the document when only the closing of the file raised.
\<close>

theorem store_written_at_commit:
  fixes s :: state
  assumes run: "handle_workflow_run_completed cfg w ev s = (r, s')" and l: "log s = []"
  shows "length (filter is_write (log s')) \<le> 1 \<and>
     (filter is_write (log s') = [] \<longrightarrow> disk s' = disk s) \<and>
     (filter is_write (log s') \<noteq> [] \<longrightarrow>
        (\<exists>t url new.
           config.targets cfg (head_branch (workflow_run ev)) = Some t \<and>
           name (workflow_run ev) = ''build-experiences'' \<and>
           find_artifact ''experiences'' (artifacts w) = Some url \<and>
           manifest w = Some new \<and>
           (let before = calls_before_commit w t ev url new
                           (stored_hashes (data s) (head_branch (workflow_run ev)));
                document = build_data_dict
                             (committed (data s) (head_branch (workflow_run ev)) new)
            in (\<exists>k. log s' = before @ [Write_data document] @
                               take k (calls_after_commit w t ev (Suc (length before)))) \<and>
               filter is_write (log s') = [Write_data document] \<and>
               disk s' =
                 (if raises (Write_data document) (reply w (length before))
                  then (case write_damage w (length before) of
                          Untouched \<Rightarrow> disk s
                        | Cut_short \<Rightarrow> Some Partial
                        | Written \<Rightarrow> Some (Document document))
                  else Some (Document document)))))"
proof (cases "name (workflow_run ev) \<noteq> ''build-experiences'' \<or>
      find_artifact ''experiences'' (artifacts w) = None \<or> manifest w = None")
  case True
  have "filter is_write (log s') = []"
    by (rule obeys_run[OF handle_no_write_obeys[OF True] _ run]) (simp add: l)
  moreover have "disk s' = disk s"
    by (rule kept_disk_quiet[OF run True])
  ultimately show ?thesis by simp
next
  case False
  then obtain url new where n: "name (workflow_run ev) = ''build-experiences''"
    and f: "find_artifact ''experiences'' (artifacts w) = Some url" and m: "manifest w = Some new"
    by auto
  show ?thesis
  proof (cases "status (workflow_run ev) = ''completed'' \<and> event (workflow_run ev) = ''push''")
    case False
    with run have "s' = s" by (auto simp: handle_workflow_run_completed_def ret_def)
    then show ?thesis by (simp add: l)
  next
    case True
    show ?thesis
    proof (cases "config.targets cfg (head_branch (workflow_run ev))")
      case None
      with run have "s' = s"
        by (simp add: handle_workflow_run_completed_def ret_def split: if_splits)
      then show ?thesis by (simp add: l)
    next
      case (Some t)
      define b where "b = head_branch (workflow_run ev)"
      define old where "old = stored_hashes (data s) b"
      define pre where "pre = calls_before_commit w t ev url new old"
      define j where "j = build_data_dict (committed (data s) b new)"
      define post where "post = calls_after_commit w t ev (Suc (length pre))"
      from True have c: "status (workflow_run ev) = ''completed''" and p: "event (workflow_run ev) = ''push''"
        by simp_all
      have np: "filter is_write pre = []" by (simp add: pre_def no_write_before_commit)
      have nq: "\<And>k. filter is_write (take k post) = []"
        by (rule filter_take_empty) (simp add: post_def no_write_before_commit)
      from handle_experiences_store[OF c p Some n f m run l b_def old_def pre_def j_def]
      consider
          (early) k where "log s' = take k pre" "disk s' = disk s"
        | (torn) "log s' = pre @ [Write_data j]" "raises (Write_data j) (reply w (length pre))"
            "disk s' = failed_write_leaves w (length pre) j (disk s)"
        | (written) k where "log s' = pre @ [Write_data j] @ take k post"
            "\<not> raises (Write_data j) (reply w (length pre))" "disk s' = Some (Document j)"
        unfolding post_def by blast
      then have "(filter is_write (log s') = [] \<and> disk s' = disk s) \<or>
          ((\<exists>k. log s' = pre @ [Write_data j] @ take k post) \<and>
           filter is_write (log s') = [Write_data j] \<and>
           disk s' = (if raises (Write_data j) (reply w (length pre))
                      then failed_write_leaves w (length pre) j (disk s)
                      else Some (Document j)))"
      proof cases
        case early
        then show ?thesis by (simp add: filter_take_empty[OF np])
      next
        case torn
        then have "log s' = pre @ [Write_data j] @ take 0 post" by simp
        with torn show ?thesis by (simp add: np)
      next
        case written
        then show ?thesis by (auto simp: np nq)
      qed
      then show ?thesis
      proof
        assume "filter is_write (log s') = [] \<and> disk s' = disk s"
        then show ?thesis by simp
      next
        assume a: "(\<exists>k. log s' = pre @ [Write_data j] @ take k post) \<and>
           filter is_write (log s') = [Write_data j] \<and>
           disk s' = (if raises (Write_data j) (reply w (length pre))
                      then failed_write_leaves w (length pre) j (disk s)
                      else Some (Document j))"
        have "\<exists>t url new.
           config.targets cfg (head_branch (workflow_run ev)) = Some t \<and>
           name (workflow_run ev) = ''build-experiences'' \<and>
           find_artifact ''experiences'' (artifacts w) = Some url \<and>
           manifest w = Some new \<and>
           (let before = calls_before_commit w t ev url new
                           (stored_hashes (data s) (head_branch (workflow_run ev)));
                document = build_data_dict
                             (committed (data s) (head_branch (workflow_run ev)) new)
            in (\<exists>k. log s' = before @ [Write_data document] @
                               take k (calls_after_commit w t ev (Suc (length before)))) \<and>
               filter is_write (log s') = [Write_data document] \<and>
               disk s' =
                 (if raises (Write_data document) (reply w (length before))
                  then (case write_damage w (length before) of
                          Untouched \<Rightarrow> disk s
                        | Cut_short \<Rightarrow> Some Partial
                        | Written \<Rightarrow> Some (Document document))
                  else Some (Document document)))"
          using a Some n f m
          unfolding Let_def post_def pre_def old_def b_def j_def failed_write_leaves_def by blast
        with a show ?thesis by simp
      qed
    qed
  qed
qed

theorem store_written_at_commit_witness:
  "disk (snd (run_example example_world ''build-experiences'')) =
     Some (Document (build_data_dict (committed example_data ''main'' example_manifest))) \<and>
   filter is_write (log (snd (run_example example_world ''build-experiences''))) =
     [Write_data (build_data_dict (committed example_data ''main'' example_manifest))] \<and>
   filter is_write (log (snd (run_example delete_raises ''build-experiences''))) = [] \<and>
   disk (snd (run_example delete_raises ''build-experiences'')) = disk example_start \<and>
   filter is_write (log (snd (run_example write_fails ''build-experiences''))) =
     [Write_data (build_data_dict (committed example_data ''main'' example_manifest))] \<and>
   disk (snd (run_example write_fails ''build-experiences'')) = Some Partial"
proof -
  note t = store_written_at_commit [where cfg = example_config and w = example_world
      and ev = "example_run ''main'' ''build-experiences''" and s = example_start,
      OF surjective_pairing example_hyps(5)]
  have e: "disk (snd (run_example example_world ''build-experiences'')) =
     Some (Document (build_data_dict (committed example_data ''main'' example_manifest))) \<and>
   filter is_write (log (snd (run_example example_world ''build-experiences''))) =
     [Write_data (build_data_dict (committed example_data ''main'' example_manifest))] \<and>
   filter is_write (log (snd (run_example delete_raises ''build-experiences''))) = [] \<and>
   disk (snd (run_example delete_raises ''build-experiences'')) = disk example_start \<and>
   filter is_write (log (snd (run_example write_fails ''build-experiences''))) =
     [Write_data (build_data_dict (committed example_data ''main'' example_manifest))] \<and>
   disk (snd (run_example write_fails ''build-experiences'')) = Some Partial"
    by code_simp
  from t e show ?thesis by blast
qed

text \<open>
  The claim as stated fails: when the reload request is answered with status 500 the run
  raises, and the file has already been replaced.
\<close>

theorem store_written_at_commit_counterexample:
  "fst (run_example reload_fails ''build-experiences'') =
     Inl (CallError (Reload ''http://ft:8000/'')) \<and>
   disk example_start = Some (Document (build_data_dict example_data)) \<and>
   disk (snd (run_example reload_fails ''build-experiences'')) =
     Some (Document (build_data_dict (committed example_data ''main'' example_manifest))) \<and>
   disk (snd (run_example reload_fails ''build-experiences'')) \<noteq> disk example_start"
  by code_simp




text \<open>
  C3.  From the map stored for the branch (the empty map when there is none) and the map
  of the manifest, lines 201 to 216 compute \<open>new_hashes\<close>, \<open>deleted_hashes\<close>,
  \<open>overlapping_hashes\<close> and \<open>changed_hashes\<close>: the added keys are the keys of the new
  map that are not keys of the old one, the deleted keys are the keys of the old map that
  are not keys of the new one, the changed keys are the keys of both maps whose
  fingerprints differ, and the remaining overlapping keys (the unchanged ones) are the
  keys of both maps whose fingerprints are equal.  The four sets are pairwise disjoint and
  their union is the union of the two key sets.  The writes into the stored map during
  the comparison do not disturb it, and neither does the order in which the sets are
  iterated.
\<close>

theorem compare_hashes_partition:
  fixes s :: state
  assumes old: "old = stored_hashes (data s) b"
  shows "\<exists>added deleted overlapping changed s'.
     compare_hashes w b new s = (Inr (added, deleted, overlapping, changed), s') \<and>
     set added = fst ` set new - fst ` set old \<and>
     set deleted = fst ` set old - fst ` set new \<and>
     set changed = {k \<in> fst ` set new \<inter> fst ` set old. map_of new k \<noteq> map_of old k} \<and>
     set overlapping - set changed =
       {k \<in> fst ` set new \<inter> fst ` set old. map_of new k = map_of old k} \<and>
     set added \<inter> set deleted = {} \<and> set added \<inter> set changed = {} \<and>
     set added \<inter> (set overlapping - set changed) = {} \<and>
     set deleted \<inter> set changed = {} \<and>
     set deleted \<inter> (set overlapping - set changed) = {} \<and>
     set changed \<inter> (set overlapping - set changed) = {} \<and>
     set added \<union> set deleted \<union> set changed \<union> (set overlapping - set changed) =
       fst ` set old \<union> fst ` set new"
proof -
  let ?a = "added_keys new old" and ?d = "deleted_keys new old"
  let ?o = "set_inter (key_set new) (key_set old)" and ?c = "changed_keys w new old"
  have a: "set ?a = fst ` set new - fst ` set old" by simp
  have d: "set ?d = fst ` set old - fst ` set new" by simp
  have o: "set ?o = fst ` set new \<inter> fst ` set old" by simp
  have c: "set ?c = {k \<in> fst ` set new \<inter> fst ` set old. map_of new k \<noteq> map_of old k}"
    by simp
  have u: "set ?o - set ?c = {k \<in> fst ` set new \<inter> fst ` set old. map_of new k = map_of old k}"
    unfolding o c by blast
  have parts: "set ?a \<inter> set ?d = {}" "set ?a \<inter> set ?c = {}" "set ?a \<inter> (set ?o - set ?c) = {}"
    "set ?d \<inter> set ?c = {}" "set ?d \<inter> (set ?o - set ?c) = {}" "set ?c \<inter> (set ?o - set ?c) = {}"
    "set ?a \<union> set ?d \<union> set ?c \<union> (set ?o - set ?c) = fst ` set old \<union> fst ` set new"
    unfolding a d o c by blast+
  from compare_hashes_run[OF old, of w new] a d c u parts show ?thesis
    by blast
qed

theorem compare_hashes_partition_witness:
  "fst (compare_hashes example_world ''main'' example_manifest example_start) =
     Inr ([''c''], [''a''], [''b''], [])"
proof -
  note t = compare_hashes_partition [where s = example_start and b = "''main''"
      and new = example_manifest and w = example_world, OF refl]
  have e: "fst (compare_hashes example_world ''main'' example_manifest example_start) =
      Inr ([''c''], [''a''], [''b''], [])"
    by code_simp
  from t e show ?thesis by blast
qed

text \<open>
  C4, as amended.  No run emits a status report with state \<open>failure\<close>: a run that raises
  ends without a final report.  A run that passes the dispatch and returns normally emits
  exactly one report with state \<open>success\<close>, as its last call, with the elapsed seconds
  in its description.
\<close>

theorem no_failure_report_one_success:
  fixes s :: state
  assumes run: "handle_workflow_run_completed cfg w ev s = (r, s')" and l: "log s = []"
  shows "filter (is_report ''failure'') (log s') = [] \<and>
     (r = Inr () \<and> status (workflow_run ev) = ''completed'' \<and> event (workflow_run ev) = ''push'' \<and>
      config.targets cfg (head_branch (workflow_run ev)) \<noteq> None \<longrightarrow>
        filter (is_report ''success'') (log s') =
          [report ev ''success'' (''Successful in '' @ str_int (elapsed w) @ ''s'')] \<and>
        last (log s') = report ev ''success'' (''Successful in '' @ str_int (elapsed w) @ ''s''))"
proof (intro conjI impI)
  show "filter (is_report ''failure'') (log s') = []"
    by (rule handle_no_failure_report[OF run l])
next
  assume a: "r = Inr () \<and> status (workflow_run ev) = ''completed'' \<and> event (workflow_run ev) = ''push'' \<and>
      config.targets cfg (head_branch (workflow_run ev)) \<noteq> None"
  then obtain t where t: "config.targets cfg (head_branch (workflow_run ev)) = Some t" by auto
  from a run have run': "handle_workflow_run_completed cfg w ev s = (Inr (), s')" by simp
  from a have c: "status (workflow_run ev) = ''completed''" and p: "event (workflow_run ev) = ''push''"
    by simp_all
  from handle_success_report[OF c p t run' l] obtain l0 where
    l0: "log s' = l0 @ [report ev ''success'' (''Successful in '' @ str_int (elapsed w) @ ''s'')]"
       "filter (is_report ''success'') l0 = []" by blast
  then show "filter (is_report ''success'') (log s') =
          [report ev ''success'' (''Successful in '' @ str_int (elapsed w) @ ''s'')]"
    by (simp add: report_def)
  from l0 show "last (log s') = report ev ''success'' (''Successful in '' @ str_int (elapsed w) @ ''s'')"
    by simp
qed

theorem no_failure_report_one_success_witness:
  "filter (is_report ''failure'') (log (snd (run_example example_world ''build-experiences''))) = [] \<and>
   last (log (snd (run_example example_world ''build-experiences''))) =
     Create_status ''org/repo'' ''abc'' ''success'' ''footron-ci/build-experiences''
       ''Successful in 7s''"
proof -
  note t = no_failure_report_one_success [where cfg = example_config and w = example_world
      and ev = "example_run ''main'' ''build-experiences''" and s = example_start,
      OF surjective_pairing example_hyps(5)]
  have e: "last (log (snd (run_example example_world ''build-experiences''))) =
     Create_status ''org/repo'' ''abc'' ''success'' ''footron-ci/build-experiences''
       ''Successful in 7s''"
    by code_simp
  from t e show ?thesis
    unfolding run_example_def by blast
qed

text \<open>
  The claim as stated fails: the run whose reload request is answered with status 500
  raises, its last call is the reload request, and none of its reports has state
  \<open>failure\<close>.
\<close>

theorem no_failure_report_one_success_counterexample:
  "fst (run_example reload_fails ''build-experiences'') =
     Inl (CallError (Reload ''http://ft:8000/'')) \<and>
   last (log (snd (run_example reload_fails ''build-experiences''))) = Reload ''http://ft:8000/'' \<and>
   filter (is_report ''failure'') (log (snd (run_example reload_fails ''build-experiences''))) = []"
  by code_simp

text \<open>
  C5, as amended.  A status report that raises aborts the run: it is the last call of the
  run, and its error is the outcome of the run.
\<close>

theorem status_failure_aborts:
  fixes s :: state
  assumes "handle_workflow_run_completed cfg w ev s = (r, s')" and "log s = []"
    and "i < length (log s')" and "is_report st (log s' ! i)"
    and "raises (log s' ! i) (reply w i)"
  shows "Suc i = length (log s') \<and> r = Inl (CallError (log s' ! i))"
  by (rule handle_stops[OF assms(1,2,3,5)])

theorem status_failure_aborts_witness:
  "length (log (snd (run_example sink_down ''build-experiences''))) = 2 \<and>
   fst (run_example sink_down ''build-experiences'') =
     Inl (CallError (Create_status ''org/repo'' ''abc'' ''pending''
       ''footron-ci/build-experiences'' ''Downloading artifacts''))"
proof -
  have i: "1 < length (log (snd (run_example sink_down ''build-experiences'')))"
    and p: "is_report ''pending'' (log (snd (run_example sink_down ''build-experiences'')) ! 1)"
    and f: "raises (log (snd (run_example sink_down ''build-experiences'')) ! 1) (reply sink_down 1)"
    and c: "log (snd (run_example sink_down ''build-experiences'')) ! 1 =
      Create_status ''org/repo'' ''abc'' ''pending'' ''footron-ci/build-experiences''
        ''Downloading artifacts''"
    by code_simp+
  note t = status_failure_aborts [where cfg = example_config and w = sink_down
      and ev = "example_run ''main'' ''build-experiences''" and s = example_start
      and i = 1 and st = "''pending''",
      OF surjective_pairing example_hyps(5) i [unfolded run_example_def]
        p [unfolded run_example_def] f [unfolded run_example_def]]
  from t c show ?thesis
    unfolding run_example_def by simp
qed

text \<open>
  The claim as stated fails: the first status report cannot be delivered, and the run
  ends there with that error, having issued the listing request and the report only;
  with a working sink the same run deploys and returns normally.
\<close>

theorem status_failure_aborts_counterexample:
  "run_example sink_down ''build-experiences'' =
     (Inl (CallError (Create_status ''org/repo'' ''abc'' ''pending''
        ''footron-ci/build-experiences'' ''Downloading artifacts'')),
      example_start\<lparr>log :=
        [Get ''https://gh/artifacts'',
         Create_status ''org/repo'' ''abc'' ''pending'' ''footron-ci/build-experiences''
           ''Downloading artifacts'']\<rparr>) \<and>
   fst (run_example example_world ''build-experiences'') = Inr ()"
  by code_simp

text \<open>
  C6.  A run-completed event whose head branch is not a key of the target registry is
  ignored: the handler returns without an error, issues no call at all (so no remote
  operation and no status report) and leaves the stored data and the file as they were.
\<close>

theorem unknown_branch_ignored:
  "config.targets cfg (head_branch (workflow_run ev)) = None \<Longrightarrow>
     handle_workflow_run_completed cfg w ev s = (Inr (), s)"
  by (simp add: handle_workflow_run_completed_def ret_def)

theorem unknown_branch_ignored_witness:
  "handle_workflow_run_completed example_config example_world
     (example_run ''unknown-branch'' ''build-experiences'') example_start = (Inr (), example_start)"
  using unknown_branch_ignored [of example_config "example_run ''unknown-branch'' ''build-experiences''"
      example_world example_start]
  by (simp add: example_config_def example_run_def)

text \<open>
  C7.  A controls run does not depend on the stored fingerprints and does not touch them:
  the stored data and the file are unchanged, and the same run from any other stored data
  and file issues the same calls with the same result.  When the listing holds the
  \<open>web-build\<close> artifact, the calls are the fixed sequence \<open>controls_calls\<close>, cut after
  the first call that raises: its seventh call mirrors the whole unpacked tree to the
  web-asset path of the target (\<open>rsync -a --delete\<close>), its ninth is the reload request;
  and the run returns normally when no call raises.
\<close>

theorem controls_full_mirror:
  fixes s :: state
  assumes "status (workflow_run ev) = ''completed''" and "event (workflow_run ev) = ''push''"
    and "config.targets cfg (head_branch (workflow_run ev)) = Some t"
    and "name (workflow_run ev) = ''build-controls''"
    and "log s = []"
    and "handle_workflow_run_completed cfg w ev s = (r, s')"
  shows "data s' = data s \<and> disk s' = disk s \<and>
     handle_workflow_run_completed cfg w ev (s\<lparr>data := d, disk := f\<rparr>) = (r, s'\<lparr>data := d, disk := f\<rparr>) \<and>
     (\<forall>url. find_artifact ''web-build'' (artifacts w) = Some url \<longrightarrow>
        prefix (log s') (controls_calls w t ev url) \<and>
        (r = Inr () \<longrightarrow> log s' = controls_calls w t ev url) \<and>
        (none_raises w (controls_calls w t ev url) \<longrightarrow> r = Inr ()) \<and>
        controls_calls w t ev url ! 6 =
          Run [''rsync'', ''-e'', ''ssh -o \"SetEnv=FT_PRODUCTION='' @ ft_production w 6 @ ''\"'',
               ''-a'', ''--delete'', temp_dir w @ ''/build/'', web_path t] \<and>
        controls_calls w t ev url ! 8 = Reload (controller_api_url t))"
proof (cases "find_artifact ''web-build'' (artifacts w)")
  case None
  note eq = handle_controls_missing[OF assms(1-4) None]
  from assms(6) None show ?thesis
    unfolding eq by (cases s) (auto simp: bind_def perform_def raise_def split: if_splits)
next
  case (Some url)
  have l': "log (s\<lparr>data := d, disk := f\<rparr>) = []" using assms(5) by simp
  note eq = handle_controls_run[OF assms(1-4) Some assms(5)]
  note eq' = handle_controls_run[OF assms(1-4) Some l']
  from assms(6) have i: "issue w (controls_calls w t ev url) s = (r, s')" by (simp add: eq)
  from issue_frame[OF i] issue_state[OF i, where d=d and f=f] issue_run_log[OF i assms(5)] Some
  show ?thesis
    by (simp add: eq') (simp add: controls_calls_def)
qed

theorem controls_full_mirror_witness:
  "fst (run_example example_world ''build-controls'') = Inr () \<and>
   log (snd (run_example example_world ''build-controls'')) =
     controls_calls example_world example_target (example_run ''main'' ''build-controls'')
       ''https://gh/zip/2'' \<and>
   log (snd (run_example example_world ''build-controls'')) ! 6 =
     Run [''rsync'', ''-e'', ''ssh -o \"SetEnv=FT_PRODUCTION=0312\"'', ''-a'', ''--delete'',
          ''/tmp/x/build/'', ''ft:/srv/web''] \<and>
   data (snd (run_example example_world ''build-controls'')) = data example_start \<and>
   disk (snd (run_example example_world ''build-controls'')) = disk example_start"
proof -
  note t = controls_full_mirror [where cfg = example_config and w = example_world
      and ev = "example_run ''main'' ''build-controls''" and s = example_start,
      OF example_hyps(1,2,3,4,5) surjective_pairing]
  have n: "none_raises example_world
      (controls_calls example_world example_target (example_run ''main'' ''build-controls'')
        ''https://gh/zip/2'')"
    by code_simp
  have e: "log (snd (run_example example_world ''build-controls'')) ! 6 =
     Run [''rsync'', ''-e'', ''ssh -o \"SetEnv=FT_PRODUCTION=0312\"'', ''-a'', ''--delete'',
          ''/tmp/x/build/'', ''ft:/srv/web'']"
    by code_simp
  from t n e example_world_hyps(2) show ?thesis
    unfolding run_example_def by blast
qed

text \<open>
  C8.  An experiences run issues the calls listed below in order, up to the first call
  that raises, and all of them when it returns normally, which it does when no call
  raises.  The sequence is: the fetch of the artifact; the report of the delete stage,
  then for each deleted key one command that removes the directory of the key under the
  controller path, through \<open>ssh\<close> on the controller host, or locally when the path
  names no host; the report of the sync stage, then for each changed or added key one
  \<open>rsync -avP --delete\<close> without \<open>*.mp4\<close> and \<open>*.webm\<close> from the directory of the
  key in the unpacked archive to the directory of the key under the controller path;
  the write of the store; the report of the configuration stage, then one \<open>rsync\<close> of
  the folders, tags and collections files to the controller path; the report of the
  reload, then one reload request; the final report.  Each deleted key and each changed
  or added key is taken exactly once, in an order that the code does not fix; every
  command carries the stamp read when it is issued.  The directory of a plain key in the
  unpacked archive is \<open>experiences/key\<close> under the temporary directory.
\<close>

theorem experiences_run_order:
  fixes s :: state
  assumes h: "status (workflow_run ev) = ''completed''" "event (workflow_run ev) = ''push''"
      "config.targets cfg (head_branch (workflow_run ev)) = Some t"
      "name (workflow_run ev) = ''build-experiences''"
      "find_artifact ''experiences'' (artifacts w) = Some url"
      "manifest w = Some new"
    and l: "log s = []"
    and run: "handle_workflow_run_completed cfg w ev s = (r, s')"
    and old: "old = stored_hashes (data s) (head_branch (workflow_run ev))"
    and deleted: "deleted = deleted_order w new old"
    and synced: "synced = synced_order w new old"
    and host: "host = takeWhile (\<lambda>c. c \<noteq> CHR '':'') (controller_path t)"
    and path: "path = (if CHR '':'' \<in> set (controller_path t)
                       then takeWhile (\<lambda>c. c \<noteq> CHR '':'')
                              (tl (dropWhile (\<lambda>c. c \<noteq> CHR '':'') (controller_path t)))
                       else controller_path t)"
    and calls: "calls =
       [Get (artifacts_url (workflow_run ev)),
        report ev ''pending'' ''Downloading artifacts'',
        Run [''curl'', ''-H'', ''Authorization: token '' @ access_token w, ''-L'', url, ''-o'',
             temp_dir w @ ''/experiences.zip''],
        report ev ''pending'' ''Extracting artifacts'',
        Run [''unzip'', temp_dir w @ ''/experiences.zip'', ''-d'', temp_dir w],
        report ev ''pending'' ''Comparing hashes'',
        report ev ''pending'' ''Deleting deleted experiences''] @
       map (\<lambda>(i, k). Run
              (if CHR '':'' \<in> set (controller_path t) \<and> host \<noteq> []
               then [''ssh'', ''-o'', ''SetEnv=FT_PRODUCTION='' @ ft_production w i, host,
                     ''rm -rf '' @ path @ ''/experiences/'' @ k]
               else [''rm'', ''-rf'', path @ ''/experiences/'' @ k]))
         (enumerate 7 deleted) @
       [report ev ''pending'' ''Syncing experiences''] @
       map (\<lambda>(i, k). Run
              [''rsync'', ''-avP'', ''--delete'', ''-e'',
               ''ssh -o \"SetEnv=FT_PRODUCTION='' @ ft_production w i @ ''\"'',
               ''--exclude=*.mp4'', ''--exclude=*.webm'',
               join_path (temp_dir w @ ''/experiences'') k @ ''/'',
               controller_path t @ ''/experiences/'' @ k])
         (enumerate (8 + length deleted) synced) @
       [Write_data (build_data_dict (committed (data s) (head_branch (workflow_run ev)) new)),
        report ev ''pending'' ''Syncing editorial configs'',
        Run [''rsync'', ''-avP'', ''--delete'', ''-e'',
             ''ssh -o \"SetEnv=FT_PRODUCTION='' @
               ft_production w (10 + length deleted + length synced) @ ''\"'',
             temp_dir w @ ''/folders.toml'', temp_dir w @ ''/tags.toml'',
             temp_dir w @ ''/collections.toml'', controller_path t],
        report ev ''pending'' ''Reloading controller'',
        Reload (controller_api_url t),
        report ev ''success'' (''Successful in '' @ str_int (elapsed w) @ ''s'')]"
  shows "prefix (log s') calls \<and> (r = Inr () \<longrightarrow> log s' = calls) \<and>
     (none_raises w calls \<longrightarrow> r = Inr ()) \<and>
     distinct deleted \<and> set deleted = fst ` set old - fst ` set new \<and>
     distinct synced \<and> set synced = {k \<in> fst ` set new. map_of new k \<noteq> map_of old k} \<and>
     (\<forall>k. k \<noteq> [] \<and> k \<noteq> ''.'' \<and> CHR ''/'' \<notin> set k \<longrightarrow>
        join_path (temp_dir w @ ''/experiences'') k = temp_dir w @ ''/experiences/'' @ k)"
proof -
  have eq: "calls = experiences_calls w t ev url new (data s)"
    unfolding calls host path experiences_calls_def Let_def calls_before_commit_def
      experiences_fetch_calls_def delete_stage_calls_def sync_stage_calls_def
      calls_after_commit_def sync_command_def configs_command_def delete_command_explicit
    by (simp add: old deleted synced eval_nat_numeral)
  from handle_experiences_issue[OF h run l] obtain s'' where
    i: "issue w calls s = (r, s'')" and ls: "log s'' = log s'"
    unfolding eq by blast
  from issue_run_log[OF i l] ls
  have 1: "prefix (log s') calls \<and> (r = Inr () \<longrightarrow> log s' = calls) \<and> (none_raises w calls \<longrightarrow> r = Inr ())"
    by simp
  have 2: "distinct deleted \<and> set deleted = fst ` set old - fst ` set new"
    by (simp add: deleted)
  have 3: "distinct synced \<and> set synced = {k \<in> fst ` set new. map_of new k \<noteq> map_of old k}"
    by (simp add: synced set_synced_order)
  have 4: "\<forall>k. k \<noteq> [] \<and> k \<noteq> ''.'' \<and> CHR ''/'' \<notin> set k \<longrightarrow>
        join_path (temp_dir w @ ''/experiences'') k = temp_dir w @ ''/experiences/'' @ k"
    by (simp add: join_path_plain)
  from 1 2 3 4 show ?thesis by blast
qed

theorem experiences_run_order_witness:
  "fst (run_example reversed_world ''build-experiences'') = Inr () \<and>
   log (snd (run_example reversed_world ''build-experiences'')) =
     [Get ''https://gh/artifacts'',
      Create_status ''org/repo'' ''abc'' ''pending'' ''footron-ci/build-experiences''
        ''Downloading artifacts'',
      Run [''curl'', ''-H'', ''Authorization: token tok'', ''-L'', ''https://gh/zip/1'', ''-o'',
           ''/tmp/x/experiences.zip''],
      Create_status ''org/repo'' ''abc'' ''pending'' ''footron-ci/build-experiences''
        ''Extracting artifacts'',
      Run [''unzip'', ''/tmp/x/experiences.zip'', ''-d'', ''/tmp/x''],
      Create_status ''org/repo'' ''abc'' ''pending'' ''footron-ci/build-experiences''
        ''Comparing hashes'',
      Create_status ''org/repo'' ''abc'' ''pending'' ''footron-ci/build-experiences''
        ''Deleting deleted experiences'',
      Run [''ssh'', ''-o'', ''SetEnv=FT_PRODUCTION=0312'', ''ft'',
           ''rm -rf /srv/footron/experiences/b''],
      Run [''ssh'', ''-o'', ''SetEnv=FT_PRODUCTION=0312'', ''ft'',
           ''rm -rf /srv/footron/experiences/a''],
      Create_status ''org/repo'' ''abc'' ''pending'' ''footron-ci/build-experiences''
        ''Syncing experiences'',
      Run [''rsync'', ''-avP'', ''--delete'', ''-e'', ''ssh -o \"SetEnv=FT_PRODUCTION=0313\"'',
           ''--exclude=*.mp4'', ''--exclude=*.webm'', ''/tmp/x/experiences/d/'',
           ''ft:/srv/footron/experiences/d''],
      Run [''rsync'', ''-avP'', ''--delete'', ''-e'', ''ssh -o \"SetEnv=FT_PRODUCTION=0313\"'',
           ''--exclude=*.mp4'', ''--exclude=*.webm'', ''/tmp/x/experiences/c/'',
           ''ft:/srv/footron/experiences/c''],
      Write_data (build_data_dict
        (committed example_data ''main'' [(''c'', ''3''), (''d'', ''4'')])),
      Create_status ''org/repo'' ''abc'' ''pending'' ''footron-ci/build-experiences''
        ''Syncing editorial configs'',
      Run [''rsync'', ''-avP'', ''--delete'', ''-e'', ''ssh -o \"SetEnv=FT_PRODUCTION=0313\"'',
           ''/tmp/x/folders.toml'', ''/tmp/x/tags.toml'', ''/tmp/x/collections.toml'',
           ''ft:/srv/footron''],
      Create_status ''org/repo'' ''abc'' ''pending'' ''footron-ci/build-experiences''
        ''Reloading controller'',
      Reload ''http://ft:8000/'',
      Create_status ''org/repo'' ''abc'' ''success'' ''footron-ci/build-experiences''
        ''Successful in 7s''] \<and>
   join_path ''/tmp/x/experiences'' ''/etc'' = ''/etc'' \<and>
   join_path ''/tmp/x/experiences'' [] = ''/tmp/x/experiences'' \<and>
   join_path ''/tmp/x/experiences'' ''.'' = ''/tmp/x/experiences'' \<and>
   join_path ''/tmp/x/experiences'' ''a/'' = ''/tmp/x/experiences/a'' \<and>
   join_path ''/tmp/x/experiences'' ''./a//b'' = ''/tmp/x/experiences/a/b'' \<and>
   join_path ''/tmp/x/experiences'' ''..'' = ''/tmp/x/experiences/..'' \<and>
   join_path ''/tmp/x/experiences'' ''//etc'' = ''//etc'' \<and>
   join_path ''/tmp/x/experiences'' ''///etc/'' = ''/etc'' \<and>
   join_path ''/tmp/x/experiences'' ''/a/../b'' = ''/a/../b'' \<and>
   join_path ''/tmp/x/experiences'' ''/'' = ''/''"
proof -
  note t = experiences_run_order [where cfg = example_config and w = reversed_world
      and ev = "example_run ''main'' ''build-experiences''" and s = example_start,
      OF example_hyps(1,2,3,4) reversed_world_hyps example_hyps(5) surjective_pairing
        refl refl refl refl refl refl]
  have e: "fst (run_example reversed_world ''build-experiences'') = Inr () \<and>
   log (snd (run_example reversed_world ''build-experiences'')) =
     [Get ''https://gh/artifacts'',
      Create_status ''org/repo'' ''abc'' ''pending'' ''footron-ci/build-experiences''
        ''Downloading artifacts'',
      Run [''curl'', ''-H'', ''Authorization: token tok'', ''-L'', ''https://gh/zip/1'', ''-o'',
           ''/tmp/x/experiences.zip''],
      Create_status ''org/repo'' ''abc'' ''pending'' ''footron-ci/build-experiences''
        ''Extracting artifacts'',
      Run [''unzip'', ''/tmp/x/experiences.zip'', ''-d'', ''/tmp/x''],
      Create_status ''org/repo'' ''abc'' ''pending'' ''footron-ci/build-experiences''
        ''Comparing hashes'',
      Create_status ''org/repo'' ''abc'' ''pending'' ''footron-ci/build-experiences''
        ''Deleting deleted experiences'',
      Run [''ssh'', ''-o'', ''SetEnv=FT_PRODUCTION=0312'', ''ft'',
           ''rm -rf /srv/footron/experiences/b''],
      Run [''ssh'', ''-o'', ''SetEnv=FT_PRODUCTION=0312'', ''ft'',
           ''rm -rf /srv/footron/experiences/a''],
      Create_status ''org/repo'' ''abc'' ''pending'' ''footron-ci/build-experiences''
        ''Syncing experiences'',
      Run [''rsync'', ''-avP'', ''--delete'', ''-e'', ''ssh -o \"SetEnv=FT_PRODUCTION=0313\"'',
           ''--exclude=*.mp4'', ''--exclude=*.webm'', ''/tmp/x/experiences/d/'',
           ''ft:/srv/footron/experiences/d''],
      Run [''rsync'', ''-avP'', ''--delete'', ''-e'', ''ssh -o \"SetEnv=FT_PRODUCTION=0313\"'',
           ''--exclude=*.mp4'', ''--exclude=*.webm'', ''/tmp/x/experiences/c/'',
           ''ft:/srv/footron/experiences/c''],
      Write_data (build_data_dict
        (committed example_data ''main'' [(''c'', ''3''), (''d'', ''4'')])),
      Create_status ''org/repo'' ''abc'' ''pending'' ''footron-ci/build-experiences''
        ''Syncing editorial configs'',
      Run [''rsync'', ''-avP'', ''--delete'', ''-e'', ''ssh -o \"SetEnv=FT_PRODUCTION=0313\"'',
           ''/tmp/x/folders.toml'', ''/tmp/x/tags.toml'', ''/tmp/x/collections.toml'',
           ''ft:/srv/footron''],
      Create_status ''org/repo'' ''abc'' ''pending'' ''footron-ci/build-experiences''
        ''Reloading controller'',
      Reload ''http://ft:8000/'',
      Create_status ''org/repo'' ''abc'' ''success'' ''footron-ci/build-experiences''
        ''Successful in 7s''] \<and>
   join_path ''/tmp/x/experiences'' ''/etc'' = ''/etc'' \<and>
   join_path ''/tmp/x/experiences'' [] = ''/tmp/x/experiences'' \<and>
   join_path ''/tmp/x/experiences'' ''.'' = ''/tmp/x/experiences'' \<and>
   join_path ''/tmp/x/experiences'' ''a/'' = ''/tmp/x/experiences/a'' \<and>
   join_path ''/tmp/x/experiences'' ''./a//b'' = ''/tmp/x/experiences/a/b'' \<and>
   join_path ''/tmp/x/experiences'' ''..'' = ''/tmp/x/experiences/..'' \<and>
   join_path ''/tmp/x/experiences'' ''//etc'' = ''//etc'' \<and>
   join_path ''/tmp/x/experiences'' ''///etc/'' = ''/etc'' \<and>
   join_path ''/tmp/x/experiences'' ''/a/../b'' = ''/a/../b'' \<and>
   join_path ''/tmp/x/experiences'' ''/'' = ''/''"
    by code_simp
  from t e show ?thesis by blast
qed

text \<open>
  C9.  Committing a build-data mapping and loading the store again returns the mapping:
  when the write of \<open>save_build_data\<close> completes, \<open>save_build_data\<close> returns
  normally, the stored data is untouched, the file holds the document of the mapping
  whatever it held before (nothing, a cut-off file, another document), and
  \<open>load_build_data\<close> on the file returns the mapping.  Loading when the file does not
  exist returns the empty store.
\<close>

theorem load_after_save:
  fixes s :: state
  assumes "data s = m" and "reply w (length (log s)) = Done n"
  shows "(\<exists>s'. save_build_data w s = (Inr (), s') \<and> data s' = m \<and>
            disk s' = Some (Document (build_data_dict m)) \<and>
            load_build_data (disk s') = Inr m) \<and>
     load_build_data None = Inr \<lparr>build_data.targets = []\<rparr>"
  using assms
  by (simp add: save_build_data_def Let_def load_document) (simp add: load_build_data_def)

theorem load_after_save_witness:
  "load_build_data (disk (start example_data None)) = Inr \<lparr>build_data.targets = []\<rparr> \<and>
   fst (save_build_data example_world (start example_data None)) = Inr () \<and>
   load_build_data (disk (snd (save_build_data example_world (start example_data None)))) =
     Inr example_data \<and>
   load_build_data (disk (snd (save_build_data example_world (start example_data (Some Partial))))) =
     Inr example_data"
proof -
  have d: "data (start example_data None) = example_data"
    and r: "reply example_world (length (log (start example_data None))) = Done 0"
    by (simp_all add: start_def example_world_def)
  note t = load_after_save [where s = "start example_data None" and w = example_world
      and m = example_data and n = 0, OF d r]
  have e: "load_build_data (disk (start example_data None)) = Inr \<lparr>build_data.targets = []\<rparr> \<and>
    load_build_data (disk (snd (save_build_data example_world (start example_data (Some Partial))))) =
      Inr example_data"
    by code_simp
  from t e show ?thesis by force
qed

text \<open>
  C10.  In an experiences run that reaches its commit point, that is, whose write to
  \<open>DATA_PATH\<close> is issued and does not raise, the map stored for the branch is the map
  read from \<open>hashes.json\<close>: the stored data is the data before the run with the
  branch's map replaced by the manifest's, whatever the insertions and removals before,
  and the file holds exactly this stored data.
\<close>

theorem committed_map_is_manifest:
  fixes s :: state
  assumes h: "status (workflow_run ev) = ''completed''" "event (workflow_run ev) = ''push''"
      "config.targets cfg (head_branch (workflow_run ev)) = Some t"
      "name (workflow_run ev) = ''build-experiences''"
      "find_artifact ''experiences'' (artifacts w) = Some url"
      "manifest w = Some new"
    and l: "log s = []"
    and run: "handle_workflow_run_completed cfg w ev s = (r, s')"
    and i: "i < length (log s')" and wi: "log s' ! i = Write_data j'"
    and ok: "\<not> raises (log s' ! i) (reply w i)"
  shows "stored_hashes (data s') (head_branch (workflow_run ev)) = new \<and>
     data s' = committed (data s) (head_branch (workflow_run ev)) new \<and>
     disk s' = Some (Document (build_data_dict (data s'))) \<and>
     load_build_data (disk s') = Inr (data s')"
proof -
  define b where "b = head_branch (workflow_run ev)"
  define old where "old = stored_hashes (data s) b"
  define pre where "pre = calls_before_commit w t ev url new old"
  define j where "j = build_data_dict (committed (data s) b new)"
  have np: "filter is_write pre = []" by (simp add: pre_def no_write_before_commit)
  have nw: "\<And>k. i < length (take k pre) \<Longrightarrow> take k pre ! i \<noteq> Write_data j'"
  proof
    fix k assume a: "i < length (take k pre)" "take k pre ! i = Write_data j'"
    then have "Write_data j' \<in> set (take k pre)" by (metis nth_mem)
    then have "Write_data j' \<in> set pre" by (meson in_set_takeD)
    with np show False by (auto simp: filter_empty_conv)
  qed
  from handle_experiences_store[OF h run l b_def old_def pre_def j_def]
  have "data s' = committed (data s) b new \<and> disk s' = Some (Document j)"
  proof (elim disjE exE conjE)
    fix k
    assume "log s' = take k pre"
    with i wi nw[of k] show ?thesis by simp
  next
    assume a: "log s' = pre @ [Write_data j]" "raises (Write_data j) (reply w (length pre))"
    show ?thesis
    proof (cases "i < length pre")
      case True
      with a(1) wi nw[of "length pre"] show ?thesis by (simp add: nth_append)
    next
      case False
      with i a(1) have "i = length pre" by simp
      with a ok show ?thesis by simp
    qed
  next
    assume "data s' = committed (data s) b new" "disk s' = Some (Document j)"
    then show ?thesis by simp
  qed
  then show ?thesis
    by (simp add: j_def b_def load_document)
qed

theorem committed_map_is_manifest_witness:
  "stored_hashes (data (snd (run_example example_world ''build-experiences''))) ''main'' =
     example_manifest \<and>
   load_build_data (disk (snd (run_example example_world ''build-experiences''))) =
     Inr (data (snd (run_example example_world ''build-experiences'')))"
proof -
  have i: "10 < length (log (snd (run_example example_world ''build-experiences'')))"
    and w: "log (snd (run_example example_world ''build-experiences'')) ! 10 =
      Write_data (build_data_dict (committed example_data ''main'' example_manifest))"
    and ok: "\<not> raises (log (snd (run_example example_world ''build-experiences'')) ! 10)
      (reply example_world 10)"
    by code_simp+
  note t = committed_map_is_manifest [where cfg = example_config and w = example_world
      and ev = "example_run ''main'' ''build-experiences''" and s = example_start and i = 10,
      OF example_hyps(1,2,3,4) example_world_hyps(1,3) example_hyps(5) surjective_pairing
        i [unfolded run_example_def] w [unfolded run_example_def] ok [unfolded run_example_def]]
  from t show ?thesis
    unfolding run_example_def example_stored(3) by blast
qed

end
